theory Spec2Isabelle
  imports Main "HOL-Library.Sublist" "HOL-Library.Multiset"
begin

unbundle bit_operations_syntax

section \<open>Nodes, errors and the registry\<close>

text \<open>
  A node object is represented by a handle: its object identity \<open>node_ref\<close> (two handles
  denote the same JavaScript object exactly when they are equal, so \<^verbatim>\<open>===\<close> and
  \<^verbatim>\<open>Array.prototype.includes\<close> are equality of handles), its integer id, the class it
  is an instance of (what \<^verbatim>\<open>instanceof\<close> tests) and, for a function definition, its
  \<^verbatim>\<open>canonicalSignatureHash\<close> string.
\<close>

datatype node_class =
    StructuredDocumentation | InheritanceSpecifier | VariableDeclaration
  | ModifierDefinition | EventDefinition | ErrorDefinition | FunctionDefinition
  | UsingForDirective | StructDefinition | EnumDefinition
  | SourceUnit | ContractDefinition | OtherNode

record ast_node =
  node_ref :: nat
  node_id :: int
  cls :: node_class
  canonicalSignatureHash :: string

datatype ContractKind = Contract | Library | Interface

datatype error =
    DuplicateId | UnresolvedReference | NotAChild | CrossContextError
  | SyntaxError | TypeError

text \<open>
  Modelled from the spec: the registry (\<^verbatim>\<open>ASTContext\<close>, reached through
  \<^verbatim>\<open>requiredContext\<close>) is not among the sources. The spec describes it as the map from
  id to node of one program, where \<^verbatim>\<open>register\<close> adds a node under its own id. It is
  the list of the registered nodes, looked up by id, so that a node is always found under
  its own id. The registry of a node is an argument of every operation that reads it.
\<close>

type_synonym ASTContext = "ast_node list"

text \<open>Modelled from the spec: \<^verbatim>\<open>locate(id)\<close> returns the node, and fails with
  UnresolvedReference if the id is absent.\<close>

definition locate :: "ASTContext \<Rightarrow> int \<Rightarrow> error + ast_node" where
  "locate ctx i =
     (case find (\<lambda>n. node_id n = i) ctx of
        None \<Rightarrow> Inl UnresolvedReference
      | Some n \<Rightarrow> Inr n)"

text \<open>Modelled from the spec: \<^verbatim>\<open>contains(node)\<close> is true iff the node's id is
  registered in this instance.\<close>

definition contains :: "ASTContext \<Rightarrow> ast_node \<Rightarrow> bool" where
  "contains ctx n = list_ex (\<lambda>m. node_id m = node_id n) ctx"

text \<open>Modelled from the spec: \<^verbatim>\<open>register(node)\<close> adds the node under its id, and
  fails with DuplicateId if the id is already present.\<close>

definition register :: "ast_node \<Rightarrow> ASTContext \<Rightarrow> error + ASTContext" where
  "register n ctx = (if contains ctx n then Inl DuplicateId else Inr (ctx @ [n]))"

section \<open>The contract definition (ast/implementation/declaration/contract_definition.ts)\<close>

text \<open>
  The fields of the class, the handle \<open>self\<close> of the object itself, the list of owned
  children kept by the base class, and \<open>parents\<close>: the parent link of every node, by
  object identity, which the tree operations update.
\<close>

record contract_definition =
  self :: ast_node
  docString :: "string option"
  name :: string
  nameLocation :: "string option"
  scope :: int
  kind :: ContractKind
  abstract :: bool
  fullyImplemented :: bool
  linearizedBaseContracts :: "int list"
  usedErrors :: "int list"
  children :: "ast_node list"
  parents :: "nat \<rightharpoonup> nat"

subsection \<open>The ownership tree of the base class\<close>

text \<open>Modelled from the spec: \<^verbatim>\<open>ASTNodeWithChildren\<close> is not among the sources.
  \<^verbatim>\<open>ownChildren\<close> is a live, ordered read view of the current children.\<close>

definition ownChildren :: "contract_definition \<Rightarrow> ast_node list" where
  "ownChildren c = children c"

text \<open>Modelled from the spec: \<^verbatim>\<open>appendChild(node)\<close> adds the node as last child and
  sets its parent to the owner.\<close>

definition appendChild :: "ast_node \<Rightarrow> contract_definition \<Rightarrow> contract_definition" where
  "appendChild n c =
     c\<lparr>children := children c @ [n],
       parents := (parents c)(node_ref n \<mapsto> node_ref (self c))\<rparr>"

text \<open>Modelled from the spec: \<^verbatim>\<open>insertAtBeginning(node)\<close> adds the node as first
  child.\<close>

definition insertAtBeginning :: "ast_node \<Rightarrow> contract_definition \<Rightarrow> contract_definition" where
  "insertAtBeginning n c =
     c\<lparr>children := n # children c,
       parents := (parents c)(node_ref n \<mapsto> node_ref (self c))\<rparr>"

fun replace_first :: "'a \<Rightarrow> 'a \<Rightarrow> 'a list \<Rightarrow> 'a list" where
  "replace_first new old [] = []"
| "replace_first new old (x # xs) =
     (if x = old then new # xs else x # replace_first new old xs)"

text \<open>Modelled from the spec: \<^verbatim>\<open>replaceChild(newNode, oldNode)\<close> fails with NotAChild
  unless oldNode is a currently owned child; it swaps in place, preserving the position,
  empties oldNode's parent link and makes the owner newNode's parent. A failed call
  leaves the tree as it was.\<close>

definition replaceChild ::
  "ast_node \<Rightarrow> ast_node \<Rightarrow> contract_definition \<Rightarrow> error option \<times> contract_definition" where
  "replaceChild newNode oldNode c =
     (if \<not> List.member (children c) oldNode then (Some NotAChild, c)
      else (None,
        c\<lparr>children := replace_first newNode oldNode (children c),
          parents := ((parents c)(node_ref oldNode := None))
                       (node_ref newNode \<mapsto> node_ref (self c))\<rparr>))"

text \<open>Modelled from the spec: \<^verbatim>\<open>removeChild(node)\<close> fails with NotAChild unless the
  node is a currently owned child; it takes the node out of the children and clears its
  parent link. A failed call leaves the tree as it was.\<close>

definition removeChild ::
  "ast_node \<Rightarrow> contract_definition \<Rightarrow> error option \<times> contract_definition" where
  "removeChild n c =
     (if \<not> List.member (children c) n then (Some NotAChild, c)
      else (None,
        c\<lparr>children := remove1 n (children c),
          parents := (parents c)(node_ref n := None)\<rparr>))"

subsection \<open>documentation\<close>

text \<open>The type \<^verbatim>\<open>string | StructuredDocumentation | undefined\<close> of the accessor.\<close>

datatype documentation_value = Undefined | Text string | Structured ast_node

definition instanceof_StructuredDocumentation :: "documentation_value \<Rightarrow> bool" where
  "instanceof_StructuredDocumentation v =
     (case v of Structured d \<Rightarrow> cls d = StructuredDocumentation | _ \<Rightarrow> False)"

definition documentation :: "contract_definition \<Rightarrow> documentation_value" where
  "documentation c =
     (case docString c of
        Some s \<Rightarrow> Text s
      | None \<Rightarrow>
          (case find (\<lambda>node. cls node = StructuredDocumentation) (ownChildren c) of
             Some d \<Rightarrow> Structured d
           | None \<Rightarrow> Undefined))"

text \<open>
  The setter. A mutator returns the error it raised, if any, together with the state it
  left behind. In the second branch the assigned \<open>val\<close> is a string or undefined, by the
  type of the accessor, and is stored in \<open>docString\<close>.
\<close>

definition documentation_set ::
  "documentation_value \<Rightarrow> contract_definition \<Rightarrow> error option \<times> contract_definition" where
  "documentation_set val c =
     (let old = documentation c in
      if instanceof_StructuredDocumentation val then
        (let c1 = c\<lparr>docString := None\<rparr> in
         if instanceof_StructuredDocumentation old then
           (if val \<noteq> old
            then (case (val, old) of
                    (Structured v, Structured d) \<Rightarrow> replaceChild v d c1
                  | _ \<Rightarrow> (None, c1))
            else (None, c1))
         else (case val of Structured v \<Rightarrow> (None, insertAtBeginning v c1) | _ \<Rightarrow> (None, c1)))
      else
        (case (if instanceof_StructuredDocumentation old
               then (case old of Structured d \<Rightarrow> removeChild d c | _ \<Rightarrow> (None, c))
               else (None, c)) of
           (Some e, c1) \<Rightarrow> (Some e, c1)
         | (None, c1) \<Rightarrow>
             (None, c1\<lparr>docString := (case val of Text s \<Rightarrow> Some s | _ \<Rightarrow> None)\<rparr>)))"

text \<open>
  The constructor: the fields are stored, the children appended in order, and then the
  documentation is assigned through the setter.
\<close>

definition new_ContractDefinition ::
  "ast_node \<Rightarrow> string \<Rightarrow> int \<Rightarrow> ContractKind \<Rightarrow> bool \<Rightarrow> bool \<Rightarrow> int list \<Rightarrow> int list \<Rightarrow>
   documentation_value \<Rightarrow> ast_node list \<Rightarrow> string option \<Rightarrow>
   error option \<times> contract_definition" where
  "new_ContractDefinition this nm sc kd ab fi lbc ue doc chs nl =
     (let c0 = \<lparr>self = this, docString = None, name = nm, nameLocation = None, scope = sc,
                kind = kd, abstract = ab, fullyImplemented = fi,
                linearizedBaseContracts = lbc, usedErrors = ue,
                children = [], parents = Map.empty\<rparr>;
          c1 = fold appendChild chs c0
      in case documentation_set doc c1 of
           (Some e, c2) \<Rightarrow> (Some e, c2)
         | (None, c2) \<Rightarrow> (None, c2\<lparr>nameLocation := nl\<rparr>))"

subsection \<open>vScope\<close>

definition vScope :: "ASTContext \<Rightarrow> contract_definition \<Rightarrow> error + ast_node" where
  "vScope ctx c = locate ctx (scope c)"

definition vScope_set ::
  "ASTContext \<Rightarrow> ast_node \<Rightarrow> contract_definition \<Rightarrow> error option \<times> contract_definition" where
  "vScope_set ctx val c =
     (if \<not> contains ctx val then (Some CrossContextError, c)
      else (None, c\<lparr>scope := node_id val\<rparr>))"

subsection \<open>Linearized base contracts\<close>

text \<open>\<^verbatim>\<open>Array.prototype.map\<close> with a callback that may throw: the first failing element,
  in order, raises.\<close>

fun map_result :: "('a \<Rightarrow> error + 'b) \<Rightarrow> 'a list \<Rightarrow> error + 'b list" where
  "map_result f [] = Inr []"
| "map_result f (x # xs) =
     (case f x of
        Inl e \<Rightarrow> Inl e
      | Inr y \<Rightarrow> (case map_result f xs of Inl e \<Rightarrow> Inl e | Inr ys \<Rightarrow> Inr (y # ys)))"

definition vLinearizedBaseContracts ::
  "ASTContext \<Rightarrow> contract_definition \<Rightarrow> error + ast_node list" where
  "vLinearizedBaseContracts ctx c = map_result (\<lambda>i. locate ctx i) (linearizedBaseContracts c)"

definition isSubclassOf ::
  "ASTContext \<Rightarrow> contract_definition \<Rightarrow> ast_node \<Rightarrow> error + bool" where
  "isSubclassOf ctx c other =
     (case vLinearizedBaseContracts ctx c of
        Inl e \<Rightarrow> Inl e
      | Inr ns \<Rightarrow> Inr (List.member ns other))"

subsection \<open>Derived views\<close>

definition vInheritanceSpecifiers :: "contract_definition \<Rightarrow> ast_node list" where
  "vInheritanceSpecifiers c = filter (\<lambda>node. cls node = InheritanceSpecifier) (ownChildren c)"

definition vStateVariables :: "contract_definition \<Rightarrow> ast_node list" where
  "vStateVariables c = filter (\<lambda>node. cls node = VariableDeclaration) (ownChildren c)"

definition vModifiers :: "contract_definition \<Rightarrow> ast_node list" where
  "vModifiers c = filter (\<lambda>node. cls node = ModifierDefinition) (ownChildren c)"

definition vEvents :: "contract_definition \<Rightarrow> ast_node list" where
  "vEvents c = filter (\<lambda>node. cls node = EventDefinition) (ownChildren c)"

definition vErrors :: "contract_definition \<Rightarrow> ast_node list" where
  "vErrors c = filter (\<lambda>node. cls node = ErrorDefinition) (ownChildren c)"

definition vFunctions :: "contract_definition \<Rightarrow> ast_node list" where
  "vFunctions c = filter (\<lambda>node. cls node = FunctionDefinition) (ownChildren c)"

definition vUsingForDirectives :: "contract_definition \<Rightarrow> ast_node list" where
  "vUsingForDirectives c = filter (\<lambda>node. cls node = UsingForDirective) (ownChildren c)"

definition vStructs :: "contract_definition \<Rightarrow> ast_node list" where
  "vStructs c = filter (\<lambda>node. cls node = StructDefinition) (ownChildren c)"

definition vEnums :: "contract_definition \<Rightarrow> ast_node list" where
  "vEnums c = filter (\<lambda>node. cls node = EnumDefinition) (ownChildren c)"

subsection \<open>interfaceId\<close>

text \<open>
  \<^verbatim>\<open>BigInt("0x" + s)\<close>: the text is trimmed of white space (only trailing white space
  can occur after the prefix), and what is left must be the prefix followed by one or
  more hexadecimal digits of either case; otherwise a SyntaxError is raised. The result is
  an unbounded non-negative integer. Strings are over the code units below 256.
\<close>

definition hex_digit_value :: "char \<Rightarrow> nat option" where
  "hex_digit_value ch =
     (let k = (of_char ch :: nat) in
      if 48 \<le> k \<and> k \<le> 57 then Some (k - 48)
      else if 97 \<le> k \<and> k \<le> 102 then Some (k - 87)
      else if 65 \<le> k \<and> k \<le> 70 then Some (k - 55)
      else None)"

fun hex_digits_value :: "string \<Rightarrow> nat \<Rightarrow> nat option" where
  "hex_digits_value [] acc = Some acc"
| "hex_digits_value (ch # s) acc =
     (case hex_digit_value ch of
        None \<Rightarrow> None
      | Some d \<Rightarrow> hex_digits_value s (16 * acc + d))"

definition StrWhiteSpaceChar :: "char \<Rightarrow> bool" where
  "StrWhiteSpaceChar ch = ((of_char ch :: nat) \<in> {9, 10, 11, 12, 13, 32, 160})"

definition BigInt_0x :: "string \<Rightarrow> error + nat" where
  "BigInt_0x s =
     (let digits = rev (dropWhile StrWhiteSpaceChar (rev s)) in
      if digits = [] then Inl SyntaxError
      else (case hex_digits_value digits 0 of
              None \<Rightarrow> Inl SyntaxError
            | Some n \<Rightarrow> Inr n))"

text \<open>\<^verbatim>\<open>toString(16)\<close> of a non-negative BigInt: lowercase digits, no leading zero.\<close>

definition hex_char :: "nat \<Rightarrow> char" where
  "hex_char d = ''0123456789abcdef'' ! d"

fun toString16 :: "nat \<Rightarrow> string" where
  "toString16 n =
     (if n < 16 then [hex_char n]
      else toString16 (n div 16) @ [hex_char (n mod 16)])"

declare toString16.simps [simp del]

text \<open>\<^verbatim>\<open>padStart(n, ch)\<close> with a filler of one character.\<close>

definition padStart :: "nat \<Rightarrow> char \<Rightarrow> string \<Rightarrow> string" where
  "padStart n ch s = replicate (n - length s) ch @ s"

text \<open>\<^verbatim>\<open>reduce((a, b) => a ^ b)\<close> without an initial value: a TypeError on the empty
  array, otherwise the fold from the left starting at the first element.\<close>

definition reduce_xor :: "nat list \<Rightarrow> error + nat" where
  "reduce_xor xs = (case xs of [] \<Rightarrow> Inl TypeError | a # bs \<Rightarrow> Inr (foldl (XOR) a bs))"

definition interfaceId :: "contract_definition \<Rightarrow> error + string option" where
  "interfaceId c =
     (if kind c \<noteq> Interface then Inr None
      else if length (vFunctions c) = 0 then Inr (Some ''00000000'')
      else (case map_result (\<lambda>fn. BigInt_0x (canonicalSignatureHash fn)) (vFunctions c) of
              Inl e \<Rightarrow> Inl e
            | Inr hs \<Rightarrow>
                (case reduce_xor hs of
                   Inl e \<Rightarrow> Inl e
                 | Inr x \<Rightarrow> Inr (Some (padStart 8 (CHR ''0'') (toString16 x))))))"

subsection \<open>The words of the claims about interfaceId\<close>

text \<open>
  A selector hash is a string of eight hexadecimal digits (four bytes); \<open>hex_value\<close> is
  the integer such a string denotes, read as hexadecimal.
\<close>

definition is_hex_digit :: "char \<Rightarrow> bool" where
  "is_hex_digit ch = (hex_digit_value ch \<noteq> None)"

definition hex_value :: "string \<Rightarrow> nat" where
  "hex_value s = foldl (\<lambda>a ch. 16 * a + (case hex_digit_value ch of Some d \<Rightarrow> d | None \<Rightarrow> 0)) 0 s"

definition is_selector_hash :: "string \<Rightarrow> bool" where
  "is_selector_hash s = (length s = 8 \<and> list_all is_hex_digit s)"

subsection \<open>The words of the claims about documentation\<close>

text \<open>
  A value of the accessor is well typed when a node it carries is a structured
  documentation. \<open>documentation_invariant\<close> says that at most one representation is
  present: no structured documentation child while a plain text is stored, and never more
  than one such child. \<open>plain_text\<close> is what the second branch of the setter stores.
\<close>

definition is_StructuredDocumentation :: "ast_node \<Rightarrow> bool" where
  "is_StructuredDocumentation n = (cls n = StructuredDocumentation)"

definition documentation_typed :: "documentation_value \<Rightarrow> bool" where
  "documentation_typed v =
     (case v of Structured d \<Rightarrow> cls d = StructuredDocumentation | _ \<Rightarrow> True)"

definition documentation_invariant :: "contract_definition \<Rightarrow> bool" where
  "documentation_invariant c =
     ((docString c = None \<or> filter is_StructuredDocumentation (ownChildren c) = []) \<and>
      length (filter is_StructuredDocumentation (ownChildren c)) \<le> 1)"

definition plain_text :: "documentation_value \<Rightarrow> string option" where
  "plain_text v = (case v of Text s \<Rightarrow> Some s | _ \<Rightarrow> None)"

subsection \<open>The words of the claims about the linearization and the views\<close>

text \<open>
  Invariant 1 of the data model: the linearization starts with the node's own id, every
  id in it resolves to a contract definition, and the node is registered under its id.
  \<open>derived_views\<close> pairs each view with the class its filter tests.
\<close>

definition invariant1 :: "ASTContext \<Rightarrow> contract_definition \<Rightarrow> bool" where
  "invariant1 ctx c =
     (linearizedBaseContracts c \<noteq> [] \<and>
      hd (linearizedBaseContracts c) = node_id (self c) \<and>
      list_all (\<lambda>i. case locate ctx i of Inr n \<Rightarrow> cls n = ContractDefinition | Inl e \<Rightarrow> False)
        (linearizedBaseContracts c) \<and>
      locate ctx (node_id (self c)) = Inr (self c))"

definition derived_views :: "((contract_definition \<Rightarrow> ast_node list) \<times> node_class) list" where
  "derived_views =
     [(vInheritanceSpecifiers, InheritanceSpecifier),
      (vStateVariables, VariableDeclaration),
      (vModifiers, ModifierDefinition),
      (vEvents, EventDefinition),
      (vErrors, ErrorDefinition),
      (vFunctions, FunctionDefinition),
      (vUsingForDirectives, UsingForDirective),
      (vStructs, StructDefinition),
      (vEnums, EnumDefinition)]"

section \<open>Example nodes\<close>

text \<open>
  The interface of the spec's scenario: id 2, functions with the selector hashes
  "aabbccdd" and "11223344". \<open>example_node\<close> builds a node with the constructor from its
  kind, its documentation and its children.
\<close>

definition example_fn1 :: ast_node where
  "example_fn1 = \<lparr>node_ref = 11, node_id = 11, cls = FunctionDefinition,
                   canonicalSignatureHash = ''aabbccdd''\<rparr>"

definition example_fn2 :: ast_node where
  "example_fn2 = \<lparr>node_ref = 12, node_id = 12, cls = FunctionDefinition,
                   canonicalSignatureHash = ''11223344''\<rparr>"

definition example_self :: "int \<Rightarrow> ast_node" where
  "example_self i = \<lparr>node_ref = nat i, node_id = i, cls = ContractDefinition,
                     canonicalSignatureHash = []\<rparr>"

definition example_node :: "ContractKind \<Rightarrow> documentation_value \<Rightarrow> ast_node list \<Rightarrow> contract_definition" where
  "example_node kd doc chs =
     snd (new_ContractDefinition (example_self 2) ''I'' 1 kd False True [2] [] doc chs None)"

text \<open>
  Two structured documentation nodes, a source unit registered together with the
  contracts 2 and 3, and a source unit of another program.
\<close>

definition example_doc0 :: ast_node where
  "example_doc0 = \<lparr>node_ref = 20, node_id = 20, cls = StructuredDocumentation,
                    canonicalSignatureHash = []\<rparr>"

definition example_doc1 :: ast_node where
  "example_doc1 = \<lparr>node_ref = 21, node_id = 21, cls = StructuredDocumentation,
                    canonicalSignatureHash = []\<rparr>"

definition example_unit :: ast_node where
  "example_unit = \<lparr>node_ref = 1, node_id = 1, cls = SourceUnit, canonicalSignatureHash = []\<rparr>"

definition example_foreign :: ast_node where
  "example_foreign = \<lparr>node_ref = 99, node_id = 99, cls = SourceUnit, canonicalSignatureHash = []\<rparr>"

definition example_registry :: ASTContext where
  "example_registry = [example_unit, example_self 2, example_self 3]"

section \<open>Native compiler prefix (compile/kinds/native.ts)\<close>

text \<open>
  \<^verbatim>\<open>getCompilerPrefixForOs\<close> reads \<^verbatim>\<open>os.arch()\<close> and \<^verbatim>\<open>os.type()\<close>; the model takes
  both strings as arguments. \<^verbatim>\<open>undefined\<close> is \<open>None\<close>.
\<close>

definition getCompilerPrefixForOs :: "string \<Rightarrow> string \<Rightarrow> string option" where
  "getCompilerPrefixForOs arch type =
     (if arch \<noteq> ''x64'' \<and> arch \<noteq> ''ia64'' then None
      else if type = ''Linux'' then Some ''linux-amd64''
      else if type = ''Windows_NT'' then Some ''windows-amd64''
      else if type = ''Darwin'' then Some ''windows-amd64''
      else None)"

section \<open>Theorems\<close>

subsection \<open>Hexadecimal strings and XOR\<close>

lemma hex_digit_value_less: "hex_digit_value ch = Some d \<Longrightarrow> d < 16"
  by (auto simp: hex_digit_value_def Let_def split: if_splits)

lemma hex_digit_not_space: "is_hex_digit ch \<Longrightarrow> \<not> StrWhiteSpaceChar ch"
  by (auto simp: is_hex_digit_def hex_digit_value_def StrWhiteSpaceChar_def Let_def split: if_splits)

lemma hex_digits_value_foldl:
  "list_all is_hex_digit s \<Longrightarrow>
   hex_digits_value s acc =
     Some (foldl (\<lambda>a ch. 16 * a + (case hex_digit_value ch of Some d \<Rightarrow> d | None \<Rightarrow> 0)) acc s)"
  by (induction s arbitrary: acc) (auto simp: is_hex_digit_def)

lemma foldl_hex_less:
  "acc < 16 ^ k \<Longrightarrow>
   foldl (\<lambda>a ch. 16 * a + (case hex_digit_value ch of Some d \<Rightarrow> d | None \<Rightarrow> 0)) acc s
     < 16 ^ (k + length s)"
proof (induction s arbitrary: acc k)
  case Nil
  then show ?case by simp
next
  case (Cons ch s)
  have d: "(case hex_digit_value ch of Some d \<Rightarrow> d | None \<Rightarrow> 0) < 16"
    by (auto split: option.splits dest: hex_digit_value_less)
  from Cons.prems have "Suc acc \<le> 16 ^ k" by simp
  then have "16 * Suc acc \<le> 16 * 16 ^ k" by (rule mult_le_mono2)
  with d have "16 * acc + (case hex_digit_value ch of Some d \<Rightarrow> d | None \<Rightarrow> 0) < 16 ^ Suc k"
    by simp
  from Cons.IH [OF this] show ?case by simp
qed

lemma hex_value_less: "hex_value s < 16 ^ length s"
  using foldl_hex_less [of 0 0 s] by (simp add: hex_value_def)

lemma dropWhile_rev_hex:
  "list_all is_hex_digit s \<Longrightarrow> rev (dropWhile StrWhiteSpaceChar (rev s)) = s"
proof (cases s rule: rev_cases)
  case Nil
  then show ?thesis by simp
next
  case (snoc xs x)
  assume "list_all is_hex_digit s"
  with snoc have "is_hex_digit x" by simp
  then have "\<not> StrWhiteSpaceChar x" by (rule hex_digit_not_space)
  with snoc show ?thesis by simp
qed

lemma BigInt_0x_hex:
  "list_all is_hex_digit s \<Longrightarrow> s \<noteq> [] \<Longrightarrow> BigInt_0x s = Inr (hex_value s)"
  by (simp add: BigInt_0x_def dropWhile_rev_hex hex_digits_value_foldl hex_value_def)

lemma xor_nat_less: "a < 2 ^ n \<Longrightarrow> b < 2 ^ n \<Longrightarrow> (a::nat) XOR b < 2 ^ n"
proof -
  assume a: "a < 2 ^ n" and b: "b < 2 ^ n"
  have "take_bit n (a XOR b) = take_bit n a XOR take_bit n b" by simp
  also have "\<dots> = a XOR b" using a b by (simp add: take_bit_nat_eq_self)
  finally show ?thesis by (simp only: take_bit_nat_eq_self_iff)
qed

lemma foldl_xor_less:
  "a < 2 ^ n \<Longrightarrow> \<forall>b \<in> set bs. b < 2 ^ n \<Longrightarrow> foldl (XOR) (a::nat) bs < 2 ^ n"
  by (induction bs arbitrary: a) (auto intro: xor_nat_less)

lemma hex_char_lower: "d < 16 \<Longrightarrow> hex_char d \<in> set ''0123456789abcdef''"
  unfolding hex_char_def by (rule nth_mem) simp

lemma hex_digit_value_hex_char: "d < 16 \<Longrightarrow> hex_digit_value (hex_char d) = Some d"
proof -
  assume "d < 16"
  then have "d \<in> {0, 1, 2, 3, 4, 5, 6, 7, 8, 9, 10, 11, 12, 13, 14, 15}" by simp arith
  then show ?thesis
    by (auto simp: hex_char_def hex_digit_value_def)
qed

lemma hex_value_snoc:
  "hex_value (s @ [ch]) = 16 * hex_value s + (case hex_digit_value ch of Some d \<Rightarrow> d | None \<Rightarrow> 0)"
  by (simp add: hex_value_def)

lemma toString16_lower: "set (toString16 n) \<subseteq> set ''0123456789abcdef''"
proof (induction n rule: toString16.induct)
  case (1 n)
  show ?case
  proof (cases "n < 16")
    case True
    then show ?thesis
      using hex_char_lower [of n] by (subst toString16.simps) simp
  next
    case False
    have "n mod 16 < 16" by simp
    then have "hex_char (n mod 16) \<in> set ''0123456789abcdef''" by (rule hex_char_lower)
    with False "1.IH" show ?thesis
      by (subst toString16.simps) simp
  qed
qed

lemma hex_value_toString16: "hex_value (toString16 n) = n"
proof (induction n rule: toString16.induct)
  case (1 n)
  show ?case
  proof (cases "n < 16")
    case True
    then show ?thesis
      by (subst toString16.simps) (simp add: hex_value_def hex_digit_value_hex_char)
  next
    case False
    with "1.IH" show ?thesis
      by (subst toString16.simps) (simp add: hex_value_snoc hex_digit_value_hex_char)
  qed
qed

lemma length_toString16: "0 < k \<Longrightarrow> n < 16 ^ k \<Longrightarrow> length (toString16 n) \<le> k"
proof (induction n arbitrary: k rule: toString16.induct)
  case (1 n)
  show ?case
  proof (cases "n < 16")
    case True
    with "1.prems" show ?thesis
      by (subst toString16.simps) simp
  next
    case False
    from False "1.prems" obtain j where k: "k = Suc j"
      by (cases k) auto
    with False "1.prems" have j: "0 < j"
      by (cases j) auto
    from "1.prems" k have "n div 16 < 16 ^ j"
      by (simp add: less_mult_imp_div_less mult.commute)
    with False j have "length (toString16 (n div 16)) \<le> j"
      by (intro "1.IH") auto
    with False k show ?thesis
      by (subst toString16.simps) simp
  qed
qed

lemma hex_value_replicate_zero: "hex_value (replicate k (CHR ''0'') @ s) = hex_value s"
proof -
  have z: "\<And>acc. acc = 0 \<Longrightarrow>
      foldl (\<lambda>a ch. 16 * a + (case hex_digit_value ch of Some d \<Rightarrow> d | None \<Rightarrow> 0)) acc
        (replicate k (CHR ''0'')) = 0"
    by (induction k) (auto simp: hex_digit_value_def)
  show ?thesis by (simp add: hex_value_def z)
qed

lemma padStart_render:
  assumes "n < 16 ^ 8"
  shows "length (padStart 8 (CHR ''0'') (toString16 n)) = 8"
    and "set (padStart 8 (CHR ''0'') (toString16 n)) \<subseteq> set ''0123456789abcdef''"
    and "hex_value (padStart 8 (CHR ''0'') (toString16 n)) = n"
proof -
  from assms have "length (toString16 n) \<le> 8"
    by (intro length_toString16) auto
  then show "length (padStart 8 (CHR ''0'') (toString16 n)) = 8"
    by (simp add: padStart_def)
  show "set (padStart 8 (CHR ''0'') (toString16 n)) \<subseteq> set ''0123456789abcdef''"
    using toString16_lower [of n] by (auto simp: padStart_def)
  show "hex_value (padStart 8 (CHR ''0'') (toString16 n)) = n"
    by (simp add: padStart_def hex_value_replicate_zero hex_value_toString16)
qed

lemma map_result_total:
  "(\<And>x. x \<in> set xs \<Longrightarrow> f x = Inr (g x)) \<Longrightarrow> map_result f xs = Inr (map g xs)"
  by (induction xs) auto

lemma map_result_one_error:
  assumes "\<And>x e. f x = Inl e \<Longrightarrow> e = err"
  shows "map_result f xs =
           (if \<forall>x \<in> set xs. \<exists>y. f x = Inr y then Inr (map (\<lambda>x. projr (f x)) xs) else Inl err)"
proof (induction xs)
  case Nil
  show ?case by simp
next
  case (Cons x xs)
  show ?case
  proof (cases "f x")
    case (Inl e)
    with assms have "e = err" by blast
    with Inl show ?thesis by auto
  next
    case (Inr y)
    with Cons show ?thesis by auto
  qed
qed

lemma BigInt_0x_error: "BigInt_0x s = Inl e \<Longrightarrow> e = SyntaxError"
  by (auto simp: BigInt_0x_def Let_def split: if_splits option.splits)

lemma reduce_xor_fold: "hs \<noteq> [] \<Longrightarrow> reduce_xor hs = Inr (fold (XOR) hs 0)"
proof (cases hs)
  case Nil
  assume "hs \<noteq> []"
  with Nil show ?thesis by simp
next
  case (Cons a bs)
  have "(\<lambda>x y. y XOR x) = ((XOR) :: nat \<Rightarrow> nat \<Rightarrow> nat)"
    by (intro ext) (simp add: xor.commute)
  then have "foldl (XOR) a bs = fold (XOR) bs a"
    by (simp add: foldl_conv_fold)
  with Cons show ?thesis by (simp add: reduce_xor_def)
qed

lemma fold_xor_permuted:
  "mset hs = mset hs' \<Longrightarrow> fold (XOR) hs (0::nat) = fold (XOR) hs' 0"
proof -
  assume m: "mset hs = mset hs'"
  have "fold (XOR) hs = fold ((XOR) :: nat \<Rightarrow> nat \<Rightarrow> nat) hs'"
    by (rule fold_multiset_equiv [OF _ m]) (simp add: fun_eq_iff xor.left_commute)
  then show ?thesis by simp
qed

lemma interfaceId_Interface:
  "kind c = Interface \<Longrightarrow>
   interfaceId c =
     (if vFunctions c = [] then Inr (Some ''00000000'')
      else if \<forall>fn \<in> set (vFunctions c). \<exists>y. BigInt_0x (canonicalSignatureHash fn) = Inr y
      then Inr (Some (padStart 8 (CHR ''0'') (toString16
             (fold (XOR) (map (\<lambda>fn. projr (BigInt_0x (canonicalSignatureHash fn))) (vFunctions c)) 0))))
      else Inl SyntaxError)"
  by (auto simp: interfaceId_def map_result_one_error [where err = SyntaxError, OF BigInt_0x_error]
        reduce_xor_fold)

text \<open>
  C1. \<^verbatim>\<open>interfaceId\<close> is undefined when the kind is not interface; for an interface
  without functions it is "00000000"; for an interface whose functions carry 4-byte
  selector hashes it is a string of 8 lowercase hexadecimal digits that denotes the XOR,
  folded from the left over \<^verbatim>\<open>vFunctions\<close> in order, of the hashes read as hexadecimal
  integers.
\<close>

theorem interfaceId_spec:
  "(kind c \<noteq> Interface \<longrightarrow> interfaceId c = Inr None) \<and>
   (kind c = Interface \<and> vFunctions c = [] \<longrightarrow> interfaceId c = Inr (Some ''00000000'')) \<and>
   (kind c = Interface \<and> vFunctions c \<noteq> [] \<and>
    list_all (\<lambda>fn. is_selector_hash (canonicalSignatureHash fn)) (vFunctions c) \<longrightarrow>
      (\<exists>s. interfaceId c = Inr (Some s) \<and> length s = 8 \<and>
           set s \<subseteq> set ''0123456789abcdef'' \<and>
           hex_value s =
             foldl (XOR) (hex_value (canonicalSignatureHash (hd (vFunctions c))))
               (map (\<lambda>fn. hex_value (canonicalSignatureHash fn)) (tl (vFunctions c)))))"
proof (intro conjI impI)
  assume "kind c \<noteq> Interface"
  then show "interfaceId c = Inr None" by (simp add: interfaceId_def)
next
  assume "kind c = Interface \<and> vFunctions c = []"
  then show "interfaceId c = Inr (Some ''00000000'')" by (simp add: interfaceId_def)
next
  assume a: "kind c = Interface \<and> vFunctions c \<noteq> [] \<and>
    list_all (\<lambda>fn. is_selector_hash (canonicalSignatureHash fn)) (vFunctions c)"
  let ?h = "\<lambda>fn. hex_value (canonicalSignatureHash fn)"
  from a obtain f fs where fs: "vFunctions c = f # fs"
    by (cases "vFunctions c") auto
  have sel: "is_selector_hash (canonicalSignatureHash fn)" if "fn \<in> set (f # fs)" for fn
    using a fs that by (auto simp: list_all_iff)
  have parse: "BigInt_0x (canonicalSignatureHash fn) = Inr (?h fn)" if "fn \<in> set (f # fs)" for fn
  proof -
    from sel [OF that] have "list_all is_hex_digit (canonicalSignatureHash fn)"
      and "canonicalSignatureHash fn \<noteq> []"
      by (auto simp: is_selector_hash_def)
    then show ?thesis by (rule BigInt_0x_hex)
  qed
  have bound: "?h fn < 2 ^ 32" if "fn \<in> set (f # fs)" for fn
  proof -
    from sel [OF that] have "length (canonicalSignatureHash fn) = 8"
      by (simp add: is_selector_hash_def)
    with hex_value_less [of "canonicalSignatureHash fn"] show ?thesis by simp
  qed
  let ?x = "foldl (XOR) (?h f) (map ?h fs)"
  have "?x < 2 ^ 32"
    by (rule foldl_xor_less) (use bound in auto)
  then have x: "?x < 16 ^ 8" by simp
  have "map_result (\<lambda>fn. BigInt_0x (canonicalSignatureHash fn)) (f # fs) = Inr (map ?h (f # fs))"
    by (rule map_result_total) (rule parse)
  with a fs have "interfaceId c = Inr (Some (padStart 8 (CHR ''0'') (toString16 ?x)))"
    by (simp add: interfaceId_def reduce_xor_def)
  with padStart_render [OF x] fs
  show "\<exists>s. interfaceId c = Inr (Some s) \<and> length s = 8 \<and>
           set s \<subseteq> set ''0123456789abcdef'' \<and>
           hex_value s =
             foldl (XOR) (hex_value (canonicalSignatureHash (hd (vFunctions c))))
               (map (\<lambda>fn. hex_value (canonicalSignatureHash fn)) (tl (vFunctions c)))"
    by simp
qed

lemma example_node_simps:
  "kind (example_node kd Undefined [example_fn1, example_fn2]) = kd"
  "vFunctions (example_node kd Undefined [example_fn1, example_fn2]) = [example_fn1, example_fn2]"
  "vFunctions (example_node kd Undefined [example_fn2, example_fn1]) = [example_fn2, example_fn1]"
  "kind (example_node kd Undefined [example_fn2, example_fn1]) = kd"
  "kind (example_node kd Undefined []) = kd"
  "vFunctions (example_node kd Undefined []) = []"
  by (simp_all add: example_node_def new_ContractDefinition_def documentation_set_def
      documentation_def instanceof_StructuredDocumentation_def ownChildren_def appendChild_def
      vFunctions_def example_fn1_def example_fn2_def)

lemma example_fn_hash:
  "canonicalSignatureHash example_fn1 = ''aabbccdd''"
  "canonicalSignatureHash example_fn2 = ''11223344''"
  by (simp_all add: example_fn1_def example_fn2_def)

theorem interfaceId_spec_witness:
  "interfaceId (example_node Contract Undefined [example_fn1, example_fn2]) = Inr None \<and>
   interfaceId (example_node Interface Undefined []) = Inr (Some ''00000000'') \<and>
   (\<exists>s. interfaceId (example_node Interface Undefined [example_fn1, example_fn2]) = Inr (Some s) \<and>
        length s = 8 \<and> set s \<subseteq> set ''0123456789abcdef'' \<and> hex_value s = 0xbb99ff99)"
proof -
  have h: "hex_value ''aabbccdd'' = 0xaabbccdd" "hex_value ''11223344'' = 0x11223344"
    by (simp_all add: hex_value_def hex_digit_value_def)
  have x: "(0xaabbccdd :: nat) XOR 0x11223344 = 0xbb99ff99"
    by simp
  have s: "is_selector_hash ''aabbccdd''" "is_selector_hash ''11223344''"
    by (simp_all add: is_selector_hash_def is_hex_digit_def hex_digit_value_def)
  show ?thesis
    using interfaceId_spec [of "example_node Contract Undefined [example_fn1, example_fn2]"]
      interfaceId_spec [of "example_node Interface Undefined []"]
      interfaceId_spec [of "example_node Interface Undefined [example_fn1, example_fn2]"]
    by (simp add: example_node_simps h x s example_fn_hash)
qed

text \<open>
  C2. For interfaces, \<^verbatim>\<open>interfaceId\<close> does not depend on the order of the functions:
  two interfaces whose function lists are permutations of each other have the same
  \<^verbatim>\<open>interfaceId\<close>; and functions with the selector hashes "aabbccdd" and "11223344"
  give "bb99ff99" in either order.
\<close>

theorem interfaceId_permutation:
  "(kind c = Interface \<and> kind c' = Interface \<and> mset (vFunctions c) = mset (vFunctions c') \<longrightarrow>
      interfaceId c = interfaceId c') \<and>
   (kind c = Interface \<and>
    (map canonicalSignatureHash (vFunctions c) = [''aabbccdd'', ''11223344''] \<or>
     map canonicalSignatureHash (vFunctions c) = [''11223344'', ''aabbccdd'']) \<longrightarrow>
      interfaceId c = Inr (Some ''bb99ff99''))"
proof (intro conjI impI)
  assume a: "kind c = Interface \<and> kind c' = Interface \<and> mset (vFunctions c) = mset (vFunctions c')"
  let ?g = "\<lambda>fn. projr (BigInt_0x (canonicalSignatureHash fn))"
  from a have m: "mset (vFunctions c) = mset (vFunctions c')" by simp
  then have st: "set (vFunctions c) = set (vFunctions c')" by (rule mset_eq_setD)
  from m have e: "vFunctions c = [] \<longleftrightarrow> vFunctions c' = []"
    by (metis mset_zero_iff)
  from m have "mset (map ?g (vFunctions c)) = mset (map ?g (vFunctions c'))" by simp
  then have "fold (XOR) (map ?g (vFunctions c)) 0 = fold (XOR) (map ?g (vFunctions c')) 0"
    by (rule fold_xor_permuted)
  with a st e show "interfaceId c = interfaceId c'"
    by (auto simp: interfaceId_Interface)
next
  assume a: "kind c = Interface \<and>
    (map canonicalSignatureHash (vFunctions c) = [''aabbccdd'', ''11223344''] \<or>
     map canonicalSignatureHash (vFunctions c) = [''11223344'', ''aabbccdd''])"
  have p: "BigInt_0x ''aabbccdd'' = Inr 0xaabbccdd" "BigInt_0x ''11223344'' = Inr 0x11223344"
    by (simp_all add: BigInt_0x_def StrWhiteSpaceChar_def hex_digit_value_def)
  have r: "padStart 8 (CHR ''0'') (toString16 0xbb99ff99) = ''bb99ff99''"
    by (simp add: padStart_def toString16.simps hex_char_def)
  have x: "(0xaabbccdd :: nat) XOR 0x11223344 = 0xbb99ff99"
    "(0x11223344 :: nat) XOR 0xaabbccdd = 0xbb99ff99"
    by simp_all
  from a obtain f g where fg: "vFunctions c = [f, g]"
    and h: "canonicalSignatureHash f = ''aabbccdd'' \<and> canonicalSignatureHash g = ''11223344'' \<or>
            canonicalSignatureHash f = ''11223344'' \<and> canonicalSignatureHash g = ''aabbccdd''"
    by (auto simp: map_eq_Cons_conv)
  from a fg h show "interfaceId c = Inr (Some ''bb99ff99'')"
    by (auto simp: interfaceId_def reduce_xor_def p r x)
qed

theorem interfaceId_permutation_witness:
  "interfaceId (example_node Interface Undefined [example_fn1, example_fn2]) =
     interfaceId (example_node Interface Undefined [example_fn2, example_fn1]) \<and>
   interfaceId (example_node Interface Undefined [example_fn1, example_fn2]) = Inr (Some ''bb99ff99'') \<and>
   interfaceId (example_node Interface Undefined [example_fn2, example_fn1]) = Inr (Some ''bb99ff99'')"
  using interfaceId_permutation [of "example_node Interface Undefined [example_fn1, example_fn2]"
          "example_node Interface Undefined [example_fn2, example_fn1]"]
    interfaceId_permutation [of "example_node Interface Undefined [example_fn2, example_fn1]"
          "example_node Interface Undefined [example_fn1, example_fn2]"]
  by (simp add: example_node_simps example_fn_hash)

subsection \<open>The documentation accessor\<close>

lemma find_StructuredDocumentation:
  "find (\<lambda>node. cls node = StructuredDocumentation) xs = Some d \<Longrightarrow>
   cls d = StructuredDocumentation \<and> d \<in> set xs"
  by (induction xs) (auto split: if_splits)

lemma documentation_Structured:
  "documentation c = Structured d \<longleftrightarrow>
   docString c = None \<and> find (\<lambda>node. cls node = StructuredDocumentation) (children c) = Some d"
  by (auto simp: documentation_def ownChildren_def split: option.splits)

lemma documentation_Text: "documentation c = Text s \<longleftrightarrow> docString c = Some s"
  by (auto simp: documentation_def split: option.splits)

lemma documentation_Undefined:
  "documentation c = Undefined \<longleftrightarrow>
   docString c = None \<and> find (\<lambda>node. cls node = StructuredDocumentation) (children c) = None"
  by (auto simp: documentation_def ownChildren_def split: option.splits)

lemma documentation_set_node:
  assumes "cls v = StructuredDocumentation"
  shows "documentation_set (Structured v) c =
    (None,
     case documentation c of
       Structured d \<Rightarrow>
         if v \<noteq> d
         then c\<lparr>docString := None,
                children := replace_first v d (children c),
                parents := ((parents c)(node_ref d := None))(node_ref v \<mapsto> node_ref (self c))\<rparr>
         else c\<lparr>docString := None\<rparr>
     | _ \<Rightarrow> insertAtBeginning v (c\<lparr>docString := None\<rparr>))"
proof (cases "documentation c")
  case (Structured d)
  then have "cls d = StructuredDocumentation" "d \<in> set (children c)"
    by (auto simp: documentation_Structured dest: find_StructuredDocumentation)
  with assms Structured show ?thesis
    by (simp add: documentation_set_def instanceof_StructuredDocumentation_def replaceChild_def)
qed (use assms in \<open>simp_all add: documentation_set_def instanceof_StructuredDocumentation_def\<close>)

lemma documentation_set_plain:
  assumes "val = Undefined \<or> val = Text s"
  shows "documentation_set val c =
    (None,
     (case documentation c of
        Structured d \<Rightarrow>
          c\<lparr>children := remove1 d (children c), parents := (parents c)(node_ref d := None)\<rparr>
      | _ \<Rightarrow> c)\<lparr>docString := plain_text val\<rparr>)"
proof (cases "documentation c")
  case (Structured d)
  then have "cls d = StructuredDocumentation" "d \<in> set (children c)"
    by (auto simp: documentation_Structured dest: find_StructuredDocumentation)
  with assms Structured show ?thesis
    by (auto simp: documentation_set_def instanceof_StructuredDocumentation_def removeChild_def
        plain_text_def)
qed (use assms in \<open>auto simp: documentation_set_def instanceof_StructuredDocumentation_def plain_text_def\<close>)

lemma find_replace_first:
  "find P xs = Some d \<Longrightarrow> P v \<Longrightarrow> find P (replace_first v d xs) = Some v"
  by (induction xs) (auto split: if_splits)

lemma replace_first_position:
  "find P xs = Some d \<Longrightarrow>
   \<exists>pre post. xs = pre @ d # post \<and> replace_first v d xs = pre @ v # post \<and>
     (\<forall>x \<in> set pre. \<not> P x)"
proof (induction xs)
  case Nil
  then show ?case by simp
next
  case (Cons x xs)
  show ?case
  proof (cases "P x")
    case True
    with Cons.prems have "x = d" by simp
    then have "x # xs = [] @ d # xs \<and> replace_first v d (x # xs) = [] @ v # xs \<and>
       (\<forall>x \<in> set []. \<not> P x)" by simp
    then show ?thesis by blast
  next
    case False
    with Cons.prems have f: "find P xs = Some d" by simp
    then have "P d" by (induction xs) (auto split: if_splits)
    with False have ne: "x \<noteq> d" by auto
    from Cons.IH [OF f] obtain pre post where
      "xs = pre @ d # post" "replace_first v d xs = pre @ v # post" "\<forall>x \<in> set pre. \<not> P x"
      by blast
    with False ne have "x # xs = (x # pre) @ d # post \<and>
       replace_first v d (x # xs) = (x # pre) @ v # post \<and> (\<forall>y \<in> set (x # pre). \<not> P y)"
      by simp
    then show ?thesis by blast
  qed
qed

lemma filter_remove1_found:
  "find P xs = Some d \<Longrightarrow> length (filter P xs) \<le> 1 \<Longrightarrow> filter P (remove1 d xs) = []"
proof (induction xs)
  case Nil
  then show ?case by simp
next
  case (Cons x xs)
  show ?case
  proof (cases "P x")
    case True
    with Cons.prems show ?thesis by simp
  next
    case False
    with Cons.prems have f: "find P xs = Some d" by simp
    then have "P d" by (induction xs) (auto split: if_splits)
    with False have "x \<noteq> d" by auto
    with False Cons f show ?thesis by simp
  qed
qed

lemma length_filter_replace_first:
  "find P xs = Some d \<Longrightarrow> P v \<Longrightarrow>
   length (filter P (replace_first v d xs)) = length (filter P xs)"
proof -
  assume f: "find P xs = Some d" and v: "P v"
  from f have d: "P d" by (induction xs) (auto split: if_splits)
  from replace_first_position [OF f, of v] obtain pre post where
    "xs = pre @ d # post" "replace_first v d xs = pre @ v # post"
    by blast
  with d v show ?thesis by simp
qed

lemma find_None_filter: "find P xs = None \<Longrightarrow> filter P xs = []"
  by (simp add: find_None_iff filter_empty_conv)

lemma filter_remove1_other: "\<not> Q d \<Longrightarrow> filter Q (remove1 d xs) = filter Q xs"
  by (induction xs) auto

lemma filter_empty_find: "filter P xs = [] \<Longrightarrow> find P xs = None"
  by (simp add: find_None_iff filter_empty_conv)

lemma documentation_set_plain_clean:
  assumes p: "val = Undefined \<or> val = Text s" and i: "documentation_invariant c"
  shows "filter is_StructuredDocumentation (ownChildren (snd (documentation_set val c))) = [] \<and>
         documentation_invariant (snd (documentation_set val c))"
proof -
  have "filter is_StructuredDocumentation (ownChildren (snd (documentation_set val c))) = []"
  proof (cases "documentation c")
    case (Structured d)
    then have f: "find is_StructuredDocumentation (children c) = Some d"
      by (simp add: documentation_Structured is_StructuredDocumentation_def [abs_def])
    from i have "length (filter is_StructuredDocumentation (children c)) \<le> 1"
      by (simp add: documentation_invariant_def ownChildren_def)
    with f have "filter is_StructuredDocumentation (remove1 d (children c)) = []"
      by (rule filter_remove1_found)
    with Structured show ?thesis
      by (simp add: documentation_set_plain [OF p] ownChildren_def)
  next
    case Undefined
    then have "filter is_StructuredDocumentation (children c) = []"
      by (simp add: documentation_Undefined is_StructuredDocumentation_def [abs_def] find_None_filter)
    with Undefined show ?thesis
      by (simp add: documentation_set_plain [OF p] ownChildren_def)
  next
    case (Text t)
    then have "docString c = Some t" by (simp add: documentation_Text)
    with i have "filter is_StructuredDocumentation (children c) = []"
      by (simp add: documentation_invariant_def ownChildren_def)
    with Text show ?thesis
      by (simp add: documentation_set_plain [OF p] ownChildren_def)
  qed
  then show ?thesis by (simp add: documentation_invariant_def)
qed

lemma documentation_set_invariant:
  assumes t: "documentation_typed val" and i: "documentation_invariant c"
  shows "documentation_invariant (snd (documentation_set val c))"
proof (cases val)
  case (Structured v)
  with t have v: "cls v = StructuredDocumentation" by (simp add: documentation_typed_def)
  show ?thesis
  proof (cases "documentation c")
    case (Structured d)
    then have f: "find is_StructuredDocumentation (children c) = Some d"
      by (simp add: documentation_Structured is_StructuredDocumentation_def [abs_def])
    have "length (filter is_StructuredDocumentation (replace_first v d (children c)))
        = length (filter is_StructuredDocumentation (children c))"
      by (rule length_filter_replace_first [OF f]) (simp add: is_StructuredDocumentation_def v)
    with i v Structured \<open>val = Structured v\<close> show ?thesis
      by (simp add: documentation_set_node documentation_invariant_def ownChildren_def)
  next
    case Undefined
    then have "filter is_StructuredDocumentation (children c) = []"
      by (simp add: documentation_Undefined is_StructuredDocumentation_def [abs_def] find_None_filter)
    with v Undefined \<open>val = Structured v\<close> show ?thesis
      by (simp add: documentation_set_node documentation_invariant_def ownChildren_def
          insertAtBeginning_def is_StructuredDocumentation_def)
  next
    case (Text s)
    with i have "filter is_StructuredDocumentation (children c) = []"
      by (simp add: documentation_Text documentation_invariant_def ownChildren_def)
    with v Text \<open>val = Structured v\<close> show ?thesis
      by (simp add: documentation_set_node documentation_invariant_def ownChildren_def
          insertAtBeginning_def is_StructuredDocumentation_def)
  qed
next
  case Undefined
  with i show ?thesis
    using documentation_set_plain_clean [of val "[]" c] by simp
next
  case (Text s)
  with i show ?thesis
    using documentation_set_plain_clean [of val s c] by simp
qed

lemma length_filter_remove1:
  "P d \<Longrightarrow> d \<in> set xs \<Longrightarrow> Suc (length (filter P (remove1 d xs))) = length (filter P xs)"
  by (induction xs) auto

lemma documentation_set_plain_dirty:
  assumes p: "val = Undefined \<or> val = Text s" and i: "\<not> documentation_invariant c"
  shows "filter is_StructuredDocumentation (ownChildren (snd (documentation_set val c))) \<noteq> []"
proof (cases "documentation c")
  case (Structured d)
  then have n: "docString c = None"
    and f: "find (\<lambda>node. cls node = StructuredDocumentation) (children c) = Some d"
    by (simp_all add: documentation_Structured)
  from f have d: "is_StructuredDocumentation d" "d \<in> set (children c)"
    by (auto simp: is_StructuredDocumentation_def dest: find_StructuredDocumentation)
  from i n have "1 < length (filter is_StructuredDocumentation (children c))"
    by (simp add: documentation_invariant_def ownChildren_def)
  with length_filter_remove1 [of is_StructuredDocumentation d "children c"] d
  have "0 < length (filter is_StructuredDocumentation (remove1 d (children c)))"
    by arith
  then have "filter is_StructuredDocumentation (remove1 d (children c)) \<noteq> []"
    by simp
  with Structured show ?thesis
    by (simp add: documentation_set_plain [OF p] ownChildren_def)
next
  case Undefined
  then have "filter is_StructuredDocumentation (children c) = []"
    by (simp add: documentation_Undefined is_StructuredDocumentation_def [abs_def] find_None_filter)
  with i show ?thesis
    by (simp add: documentation_invariant_def ownChildren_def)
next
  case (Text t)
  from i have "filter is_StructuredDocumentation (children c) \<noteq> []"
    by (auto simp: documentation_invariant_def ownChildren_def)
  with Text show ?thesis
    by (simp add: documentation_set_plain [OF p] ownChildren_def)
qed

lemma documentation_set_plain_clean_iff:
  assumes p: "val = Undefined \<or> val = Text s"
  shows "filter is_StructuredDocumentation (ownChildren (snd (documentation_set val c))) = []
           \<longleftrightarrow> documentation_invariant c"
  using documentation_set_plain_clean [OF p] documentation_set_plain_dirty [OF p] by blast

lemma documentation_set_sequence_invariant:
  "list_all documentation_typed vs \<Longrightarrow> documentation_invariant c \<Longrightarrow>
   documentation_invariant (fold (\<lambda>v c. snd (documentation_set v c)) vs c)"
  by (induction vs arbitrary: c) (simp_all add: documentation_set_invariant)

lemmas example_defs =
  example_node_def new_ContractDefinition_def documentation_set_def documentation_def
  instanceof_StructuredDocumentation_def ownChildren_def appendChild_def insertAtBeginning_def
  replaceChild_def removeChild_def example_fn1_def example_fn2_def example_doc0_def
  example_doc1_def example_self_def

lemma children_fold_appendChild:
  "children (fold appendChild chs c) = children c @ chs \<and>
   docString (fold appendChild chs c) = docString c"
  by (induction chs arbitrary: c) (simp_all add: appendChild_def)

lemma new_ContractDefinition_invariant:
  assumes "list_all (\<lambda>n. cls n \<noteq> StructuredDocumentation) chs" and "documentation_typed doc"
  shows "documentation_invariant
           (snd (new_ContractDefinition this nm sc kd ab fi lbc ue doc chs nl))"
proof -
  define c1 where "c1 = fold appendChild chs
     \<lparr>self = this, docString = None, name = nm, nameLocation = None, scope = sc,
      kind = kd, abstract = ab, fullyImplemented = fi,
      linearizedBaseContracts = lbc, usedErrors = ue,
      children = [], parents = Map.empty\<rparr>"
  have "children c1 = chs"
    unfolding c1_def by (simp add: children_fold_appendChild)
  with assms(1) have "filter is_StructuredDocumentation (ownChildren c1) = []"
    by (simp add: ownChildren_def filter_empty_conv list_all_iff is_StructuredDocumentation_def)
  then have "documentation_invariant c1"
    by (simp add: documentation_invariant_def)
  with assms(2) have "documentation_invariant (snd (documentation_set doc c1))"
    by (rule documentation_set_invariant)
  then show ?thesis
    by (cases "documentation_set doc c1")
       (auto simp: new_ContractDefinition_def c1_def [symmetric] documentation_invariant_def
          ownChildren_def split: option.splits)
qed

text \<open>
  C3 (amended). When the current documentation is a plain string, assigning a plain string
  \<open>s\<close> performs no tree operation: \<^verbatim>\<open>ownChildren\<close> and every field other than the stored
  text stay as they were. The stored text becomes \<open>s\<close> and the getter returns \<open>s\<close>, so the
  assignment leaves the node unchanged exactly when \<open>s\<close> is the text that was stored.
\<close>

theorem string_over_string_assignment:
  "documentation c = Text t \<longrightarrow>
     documentation_set (Text s) c = (None, c\<lparr>docString := Some s\<rparr>) \<and>
     ownChildren (snd (documentation_set (Text s) c)) = ownChildren c \<and>
     documentation (snd (documentation_set (Text s) c)) = Text s \<and>
     (snd (documentation_set (Text s) c) = c \<longleftrightarrow> s = t)"
proof
  assume a: "documentation c = Text t"
  then have d: "docString c = Some t" by (simp add: documentation_Text)
  from a have e: "documentation_set (Text s) c = (None, c\<lparr>docString := Some s\<rparr>)"
    by (simp add: documentation_set_plain [where s = s] plain_text_def)
  have "c\<lparr>docString := Some s\<rparr> = c \<longleftrightarrow> s = t"
  proof
    assume "c\<lparr>docString := Some s\<rparr> = c"
    then have "docString (c\<lparr>docString := Some s\<rparr>) = docString c" by simp
    with d show "s = t" by simp
  next
    assume "s = t"
    with d show "c\<lparr>docString := Some s\<rparr> = c" by simp
  qed
  with e show "documentation_set (Text s) c = (None, c\<lparr>docString := Some s\<rparr>) \<and>
     ownChildren (snd (documentation_set (Text s) c)) = ownChildren c \<and>
     documentation (snd (documentation_set (Text s) c)) = Text s \<and>
     (snd (documentation_set (Text s) c) = c \<longleftrightarrow> s = t)"
    by (simp add: ownChildren_def documentation_Text)
qed

theorem string_over_string_assignment_witness:
  "documentation (example_node Contract (Text ''desc'') [example_fn1]) = Text ''desc'' \<and>
   snd (documentation_set (Text ''desc'') (example_node Contract (Text ''desc'') [example_fn1]))
     = example_node Contract (Text ''desc'') [example_fn1] \<and>
   documentation (snd (documentation_set (Text ''other'')
     (example_node Contract (Text ''desc'') [example_fn1]))) = Text ''other'' \<and>
   ownChildren (snd (documentation_set (Text ''other'')
     (example_node Contract (Text ''desc'') [example_fn1]))) = [example_fn1]"
proof -
  have d: "documentation (example_node Contract (Text ''desc'') [example_fn1]) = Text ''desc''"
    and o: "ownChildren (example_node Contract (Text ''desc'') [example_fn1]) = [example_fn1]"
    by (simp_all add: example_defs)
  have w1: "snd (documentation_set (Text ''desc'')
               (example_node Contract (Text ''desc'') [example_fn1]))
             = example_node Contract (Text ''desc'') [example_fn1]"
    using string_over_string_assignment
            [of "example_node Contract (Text ''desc'') [example_fn1]" "''desc''" "''desc''"] d
    by blast
  have w2: "documentation (snd (documentation_set (Text ''other'')
               (example_node Contract (Text ''desc'') [example_fn1]))) = Text ''other'' \<and>
            ownChildren (snd (documentation_set (Text ''other'')
               (example_node Contract (Text ''desc'') [example_fn1])))
             = ownChildren (example_node Contract (Text ''desc'') [example_fn1])"
    using string_over_string_assignment
            [of "example_node Contract (Text ''desc'') [example_fn1]" "''desc''" "''other''"] d
    by blast
  from d o w1 w2 show ?thesis by simp
qed

text \<open>
  C3 as stated fails: on a node whose documentation is "a", assigning "b" changes what the
  getter returns.
\<close>

theorem string_over_string_noop_counterexample:
  "documentation (example_node Contract (Text ''a'') []) = Text ''a'' \<and>
   documentation (snd (documentation_set (Text ''b'') (example_node Contract (Text ''a'') [])))
     = Text ''b'' \<and>
   documentation (snd (documentation_set (Text ''b'') (example_node Contract (Text ''a'') [])))
     \<noteq> documentation (example_node Contract (Text ''a'') [])"
  by (simp add: example_defs)

text \<open>
  C4 (amended). After a structured documentation node \<open>D\<close> is assigned, the setter has
  raised nothing and the getter returns \<open>D\<close>. \<open>D\<close> is the first element of
  \<^verbatim>\<open>ownChildren\<close> when the previous documentation was absent or a plain string, and when
  it was a structured node that was itself the first child. In general \<open>D\<close> takes the
  position of the previous structured node, whatever that position was.
\<close>

theorem node_assignment_position:
  fixes c :: contract_definition and D :: ast_node
  defines "c' \<equiv> snd (documentation_set (Structured D) c)"
  assumes D: "cls D = StructuredDocumentation"
  shows "fst (documentation_set (Structured D) c) = None \<and>
     documentation c' = Structured D \<and>
     (documentation c = Undefined \<or> (\<exists>t. documentation c = Text t) \<longrightarrow>
        ownChildren c' = D # ownChildren c) \<and>
     (\<forall>D0. documentation c = Structured D0 \<longrightarrow>
        (\<exists>pre post. ownChildren c = pre @ D0 # post \<and>
           list_all (\<lambda>n. cls n \<noteq> StructuredDocumentation) pre \<and>
           ownChildren c' = pre @ D # post)) \<and>
     (\<forall>D0 rest. documentation c = Structured D0 \<and> ownChildren c = D0 # rest \<longrightarrow>
        ownChildren c' = D # rest)"
proof (cases "documentation c")
  case Undefined
  with D show ?thesis
    by (simp add: c'_def documentation_set_node insertAtBeginning_def documentation_def
        ownChildren_def)
next
  case (Text t)
  with D show ?thesis
    by (simp add: c'_def documentation_set_node insertAtBeginning_def documentation_def
        ownChildren_def)
next
  case (Structured d)
  then have f: "find (\<lambda>node. cls node = StructuredDocumentation) (children c) = Some d"
    and n: "docString c = None"
    by (simp_all add: documentation_Structured)
  from replace_first_position [OF f, of D] obtain pre post where
    pp: "children c = pre @ d # post" "replace_first D d (children c) = pre @ D # post"
      "\<forall>x \<in> set pre. cls x \<noteq> StructuredDocumentation"
    by blast
  have ch: "children c' = pre @ D # post"
    using Structured D pp by (auto simp: c'_def documentation_set_node)
  have ds: "docString c' = None"
    using Structured D by (simp add: c'_def documentation_set_node)
  have "find (\<lambda>node. cls node = StructuredDocumentation) (pre @ D # post) = Some D"
    using pp(3) D by (induction pre) auto
  with ch ds have g: "documentation c' = Structured D"
    by (simp add: documentation_Structured)
  have e: "fst (documentation_set (Structured D) c) = None"
    using D by (simp add: documentation_set_node)
  have first: "ownChildren c' = D # rest" if "ownChildren c = d # rest" for rest
  proof -
    from that f have "replace_first D d (children c) = D # rest"
      by (simp add: ownChildren_def)
    with pp(2) ch show ?thesis by (simp add: ownChildren_def)
  qed
  from pp ch have "\<exists>pre post. ownChildren c = pre @ d # post \<and>
           list_all (\<lambda>n. cls n \<noteq> StructuredDocumentation) pre \<and>
           ownChildren c' = pre @ D # post"
    by (auto simp: ownChildren_def list_all_iff)
  with e g first Structured show ?thesis by simp
qed

theorem node_assignment_position_witness:
  "cls example_doc1 = StructuredDocumentation \<and>
   documentation (example_node Contract (Text ''desc'') [example_fn1]) = Text ''desc'' \<and>
   documentation (snd (documentation_set (Structured example_doc1)
      (example_node Contract (Text ''desc'') [example_fn1]))) = Structured example_doc1 \<and>
   ownChildren (snd (documentation_set (Structured example_doc1)
      (example_node Contract (Text ''desc'') [example_fn1]))) = [example_doc1, example_fn1] \<and>
   documentation (example_node Contract (Structured example_doc0) [example_fn1])
      = Structured example_doc0 \<and>
   ownChildren (snd (documentation_set (Structured example_doc1)
      (example_node Contract (Structured example_doc0) [example_fn1])))
      = [example_doc1, example_fn1]"
proof -
  have D: "cls example_doc1 = StructuredDocumentation"
    by (simp add: example_doc1_def)
  have d: "documentation (example_node Contract (Text ''desc'') [example_fn1]) = Text ''desc''"
    and o: "ownChildren (example_node Contract (Text ''desc'') [example_fn1]) = [example_fn1]"
    and d': "documentation (example_node Contract (Structured example_doc0) [example_fn1])
              = Structured example_doc0"
    and o': "ownChildren (example_node Contract (Structured example_doc0) [example_fn1])
              = [example_doc0, example_fn1]"
    by (simp_all add: example_defs)
  from node_assignment_position
         [OF D, of "example_node Contract (Text ''desc'') [example_fn1]"] d o
  have w1: "documentation (snd (documentation_set (Structured example_doc1)
      (example_node Contract (Text ''desc'') [example_fn1]))) = Structured example_doc1 \<and>
   ownChildren (snd (documentation_set (Structured example_doc1)
      (example_node Contract (Text ''desc'') [example_fn1]))) = [example_doc1, example_fn1]"
    by simp
  from node_assignment_position
         [OF D, of "example_node Contract (Structured example_doc0) [example_fn1]"] d' o'
  have w2: "ownChildren (snd (documentation_set (Structured example_doc1)
      (example_node Contract (Structured example_doc0) [example_fn1])))
      = [example_doc1, example_fn1]"
    by simp
  from D d d' w1 w2 show ?thesis by simp
qed

text \<open>
  C4 as stated fails: a structured documentation node appended after a function is
  replaced in place, so the newly assigned node is the second child, not the first.
\<close>

theorem node_assignment_first_counterexample:
  "cls example_doc1 = StructuredDocumentation \<and>
   documentation (appendChild example_doc0 (example_node Contract Undefined [example_fn1]))
     = Structured example_doc0 \<and>
   ownChildren (snd (documentation_set (Structured example_doc1)
      (appendChild example_doc0 (example_node Contract Undefined [example_fn1]))))
     = [example_fn1, example_doc1] \<and>
   ownChildren (snd (documentation_set (Structured example_doc1)
      (appendChild example_doc0 (example_node Contract Undefined [example_fn1])))) ! 0
     \<noteq> example_doc1"
  by (simp add: example_defs)

lemma ownChildren_documentation_set_plain:
  assumes "val = Undefined \<or> val = Text s"
  shows "ownChildren (snd (documentation_set val c)) =
     (case documentation c of
        Structured D0 \<Rightarrow> remove1 D0 (ownChildren c)
      | _ \<Rightarrow> ownChildren c)"
  by (cases "documentation c") (simp_all add: documentation_set_plain [OF assms] ownChildren_def)

text \<open>
  C5 (amended). After a plain string \<open>s\<close> is assigned, the setter has raised nothing, the
  getter returns \<open>s\<close>, and the first occurrence in \<^verbatim>\<open>ownChildren\<close> of the structured node
  that was the previous documentation, if any, has been removed; nothing else in
  \<^verbatim>\<open>ownChildren\<close> changes. No structured documentation node is left among
  \<^verbatim>\<open>ownChildren\<close> exactly when the node satisfied the documentation invariant before
  (no structured documentation child while a plain text is stored, and at most one such
  child). The constructor establishes the invariant when its children hold no structured
  documentation node, and every well-typed assignment to documentation, hence every
  sequence of such assignments, preserves it.
\<close>

theorem text_assignment_invariant:
  fixes c :: contract_definition and s :: string
  defines "c' \<equiv> snd (documentation_set (Text s) c)"
  shows "fst (documentation_set (Text s) c) = None \<and>
     documentation c' = Text s \<and>
     ownChildren c' =
       (case documentation c of
          Structured D0 \<Rightarrow> remove1 D0 (ownChildren c)
        | _ \<Rightarrow> ownChildren c) \<and>
     (list_all (\<lambda>n. cls n \<noteq> StructuredDocumentation) (ownChildren c') \<longleftrightarrow>
        documentation_invariant c) \<and>
     (documentation_invariant c \<longrightarrow>
        list_all (\<lambda>n. cls n \<noteq> StructuredDocumentation) (ownChildren c') \<and>
        documentation_invariant c') \<and>
     (documentation_typed v \<and> documentation_invariant c \<longrightarrow>
        documentation_invariant (snd (documentation_set v c))) \<and>
     (list_all documentation_typed vs \<and> documentation_invariant c \<longrightarrow>
        documentation_invariant (fold (\<lambda>v c. snd (documentation_set v c)) vs c)) \<and>
     (documentation_typed v \<and> list_all (\<lambda>n. cls n \<noteq> StructuredDocumentation) chs \<longrightarrow>
        documentation_invariant
          (snd (new_ContractDefinition this nm sc kd ab fi lbc ue v chs nl)))"
proof -
  have p: "Text s = Undefined \<or> Text s = Text s" by simp
  have 1: "fst (documentation_set (Text s) c) = None"
    by (simp add: documentation_set_plain [OF p])
  have 2: "documentation c' = Text s"
    by (simp add: c'_def documentation_set_plain [OF p] documentation_Text plain_text_def)
  have 3: "ownChildren c' =
       (case documentation c of
          Structured D0 \<Rightarrow> remove1 D0 (ownChildren c)
        | _ \<Rightarrow> ownChildren c)"
    unfolding c'_def by (rule ownChildren_documentation_set_plain [OF p])
  have l: "list_all (\<lambda>n. cls n \<noteq> StructuredDocumentation) xs \<longleftrightarrow>
           filter is_StructuredDocumentation xs = []" for xs
    by (simp add: filter_empty_conv list_all_iff is_StructuredDocumentation_def)
  have 4: "list_all (\<lambda>n. cls n \<noteq> StructuredDocumentation) (ownChildren c') \<longleftrightarrow>
        documentation_invariant c"
    unfolding c'_def l by (rule documentation_set_plain_clean_iff [OF p])
  have 5: "documentation_invariant c'" if "documentation_invariant c"
    using documentation_set_plain_clean [OF p that] by (simp add: c'_def)
  have 6: "documentation_invariant (snd (documentation_set v c))"
    if "documentation_typed v" "documentation_invariant c"
    using that by (rule documentation_set_invariant)
  have 7: "documentation_invariant (fold (\<lambda>v c. snd (documentation_set v c)) vs c)"
    if "list_all documentation_typed vs" "documentation_invariant c"
    using that by (rule documentation_set_sequence_invariant)
  have 8: "documentation_invariant
          (snd (new_ContractDefinition this nm sc kd ab fi lbc ue v chs nl))"
    if "list_all (\<lambda>n. cls n \<noteq> StructuredDocumentation) chs" "documentation_typed v"
    using that by (rule new_ContractDefinition_invariant)
  from 1 2 3 4 5 6 7 8 show ?thesis by blast
qed

theorem text_assignment_invariant_witness:
  "documentation_invariant (example_node Contract (Structured example_doc0) [example_fn1]) \<and>
   documentation (snd (documentation_set (Text ''x'')
      (example_node Contract (Structured example_doc0) [example_fn1]))) = Text ''x'' \<and>
   ownChildren (snd (documentation_set (Text ''x'')
      (example_node Contract (Structured example_doc0) [example_fn1]))) = [example_fn1] \<and>
   documentation_invariant (snd (documentation_set (Text ''x'')
      (example_node Contract (Structured example_doc0) [example_fn1]))) \<and>
   documentation_invariant (snd (documentation_set (Structured example_doc1)
      (example_node Contract (Structured example_doc0) [example_fn1]))) \<and>
   documentation_invariant
     (fold (\<lambda>v c. snd (documentation_set v c)) [Text ''x'', Structured example_doc1, Undefined]
        (example_node Contract (Structured example_doc0) [example_fn1]))"
proof -
  have t: "documentation_typed (Structured example_doc0)"
      "documentation_typed (Structured example_doc1)"
    and ts: "list_all documentation_typed [Text ''x'', Structured example_doc1, Undefined]"
    and l: "list_all (\<lambda>n. cls n \<noteq> StructuredDocumentation) [example_fn1]"
    by (simp_all add: documentation_typed_def example_doc0_def example_doc1_def example_fn1_def)
  have d: "documentation (example_node Contract (Structured example_doc0) [example_fn1])
              = Structured example_doc0"
    and o: "ownChildren (example_node Contract (Structured example_doc0) [example_fn1])
              = [example_doc0, example_fn1]"
    by (simp_all add: example_defs)
  have i: "documentation_invariant (example_node Contract (Structured example_doc0) [example_fn1])"
    unfolding example_node_def
    using text_assignment_invariant [where v = "Structured example_doc0" and chs = "[example_fn1]"] t l
    by blast
  note w = text_assignment_invariant
         [where s = "''x''" and c = "example_node Contract (Structured example_doc0) [example_fn1]"
            and v = "Structured example_doc1"
            and vs = "[Text ''x'', Structured example_doc1, Undefined]"]
  have w1: "documentation (snd (documentation_set (Text ''x'')
      (example_node Contract (Structured example_doc0) [example_fn1]))) = Text ''x''"
    using w by blast
  have w2: "ownChildren (snd (documentation_set (Text ''x'')
      (example_node Contract (Structured example_doc0) [example_fn1]))) = [example_fn1]"
    using w d o by simp
  have w3: "documentation_invariant (snd (documentation_set (Text ''x'')
      (example_node Contract (Structured example_doc0) [example_fn1])))"
    using w i by blast
  have w4: "documentation_invariant (snd (documentation_set (Structured example_doc1)
      (example_node Contract (Structured example_doc0) [example_fn1])))"
    using w i t by blast
  have w5: "documentation_invariant
     (fold (\<lambda>v c. snd (documentation_set v c)) [Text ''x'', Structured example_doc1, Undefined]
        (example_node Contract (Structured example_doc0) [example_fn1]))"
    using w i ts by blast
  from i w1 w2 w3 w4 w5 show ?thesis by blast
qed

text \<open>
  C5 as stated fails: when two structured documentation nodes were appended, assigning a
  string removes the first only, and the second stays among \<^verbatim>\<open>ownChildren\<close>.
\<close>

theorem text_assignment_child_counterexample:
  "documentation (snd (documentation_set (Text ''x'')
      (appendChild example_doc1 (appendChild example_doc0 (example_node Contract Undefined [])))))
     = Text ''x'' \<and>
   ownChildren (snd (documentation_set (Text ''x'')
      (appendChild example_doc1 (appendChild example_doc0 (example_node Contract Undefined [])))))
     = [example_doc1] \<and>
   cls example_doc1 = StructuredDocumentation"
  by (simp add: example_defs)

text \<open>
  C9 (amended). Assigning undefined raises nothing, clears the stored plain text and, when
  the previous documentation was a structured child, removes its first occurrence from
  \<^verbatim>\<open>ownChildren\<close>; the nine derived views are unchanged. Afterwards the getter returns the
  first structured documentation node that remains among \<^verbatim>\<open>ownChildren\<close>, or undefined
  when none remains. It returns undefined, and no structured documentation node is left,
  exactly when the node satisfied the documentation invariant before (no structured
  documentation child while a plain text is stored, and at most one such child);
  otherwise a remaining structured documentation child is what the getter returns.
\<close>

theorem undefined_assignment_clears:
  fixes c :: contract_definition
  defines "c' \<equiv> snd (documentation_set Undefined c)"
  shows "fst (documentation_set Undefined c) = None \<and>
     docString c' = None \<and>
     ownChildren c' =
       (case documentation c of
          Structured D0 \<Rightarrow> remove1 D0 (ownChildren c)
        | _ \<Rightarrow> ownChildren c) \<and>
     vInheritanceSpecifiers c' = vInheritanceSpecifiers c \<and>
     vStateVariables c' = vStateVariables c \<and>
     vModifiers c' = vModifiers c \<and>
     vEvents c' = vEvents c \<and>
     vErrors c' = vErrors c \<and>
     vFunctions c' = vFunctions c \<and>
     vUsingForDirectives c' = vUsingForDirectives c \<and>
     vStructs c' = vStructs c \<and>
     vEnums c' = vEnums c \<and>
     documentation c' =
       (case find (\<lambda>n. cls n = StructuredDocumentation) (ownChildren c') of
          Some d \<Rightarrow> Structured d
        | None \<Rightarrow> Undefined) \<and>
     (documentation c' = Undefined \<longleftrightarrow> documentation_invariant c) \<and>
     (list_all (\<lambda>n. cls n \<noteq> StructuredDocumentation) (ownChildren c') \<longleftrightarrow>
        documentation_invariant c) \<and>
     (documentation_invariant c \<longrightarrow>
        documentation c' = Undefined \<and>
        list_all (\<lambda>n. cls n \<noteq> StructuredDocumentation) (ownChildren c')) \<and>
     (\<not> documentation_invariant c \<longrightarrow>
        (\<exists>d. documentation c' = Structured d \<and> cls d = StructuredDocumentation \<and>
             d \<in> set (ownChildren c')))"
proof -
  have p: "Undefined = Undefined \<or> Undefined = Text []" by simp
  have 1: "fst (documentation_set Undefined c) = None"
    by (simp add: documentation_set_plain [OF p])
  have 2: "docString c' = None"
    by (simp add: c'_def documentation_set_plain [OF p] plain_text_def)
  have 3: "ownChildren c' =
       (case documentation c of
          Structured D0 \<Rightarrow> remove1 D0 (ownChildren c)
        | _ \<Rightarrow> ownChildren c)"
    unfolding c'_def by (rule ownChildren_documentation_set_plain [OF p])
  have view: "filter (\<lambda>node. cls node = k) (ownChildren c') = filter (\<lambda>node. cls node = k) (ownChildren c)"
    if "k \<noteq> StructuredDocumentation" for k
  proof (cases "documentation c")
    case (Structured d)
    then have "cls d = StructuredDocumentation"
      by (auto simp: documentation_Structured dest: find_StructuredDocumentation)
    with that have "\<not> cls d = k" by simp
    then have "filter (\<lambda>node. cls node = k) (remove1 d (ownChildren c))
        = filter (\<lambda>node. cls node = k) (ownChildren c)"
      by (rule filter_remove1_other)
    with 3 Structured show ?thesis by simp
  qed (simp_all add: 3)
  have 5: "vInheritanceSpecifiers c' = vInheritanceSpecifiers c \<and>
     vStateVariables c' = vStateVariables c \<and>
     vModifiers c' = vModifiers c \<and>
     vEvents c' = vEvents c \<and>
     vErrors c' = vErrors c \<and>
     vFunctions c' = vFunctions c \<and>
     vUsingForDirectives c' = vUsingForDirectives c \<and>
     vStructs c' = vStructs c \<and>
     vEnums c' = vEnums c"
    by (simp add: view vInheritanceSpecifiers_def vStateVariables_def vModifiers_def vEvents_def
        vErrors_def vFunctions_def vUsingForDirectives_def vStructs_def vEnums_def)
  have 6: "documentation c' =
       (case find (\<lambda>n. cls n = StructuredDocumentation) (ownChildren c') of
          Some d \<Rightarrow> Structured d
        | None \<Rightarrow> Undefined)"
    using 2 by (simp add: documentation_def)
  have l: "list_all (\<lambda>n. cls n \<noteq> StructuredDocumentation) xs \<longleftrightarrow>
           filter is_StructuredDocumentation xs = []" for xs
    by (simp add: filter_empty_conv list_all_iff is_StructuredDocumentation_def)
  have 7: "list_all (\<lambda>n. cls n \<noteq> StructuredDocumentation) (ownChildren c') \<longleftrightarrow>
        documentation_invariant c"
    unfolding c'_def l by (rule documentation_set_plain_clean_iff [OF p])
  have "documentation c' = Undefined \<longleftrightarrow>
        find (\<lambda>n. cls n = StructuredDocumentation) (ownChildren c') = None"
    by (simp add: 6 split: option.splits)
  also have "\<dots> \<longleftrightarrow> list_all (\<lambda>n. cls n \<noteq> StructuredDocumentation) (ownChildren c')"
    by (auto simp: find_None_iff list_all_iff)
  finally have 8: "documentation c' = Undefined \<longleftrightarrow> documentation_invariant c"
    using 7 by simp
  have 9: "\<exists>d. documentation c' = Structured d \<and> cls d = StructuredDocumentation \<and>
             d \<in> set (ownChildren c')"
    if "\<not> documentation_invariant c"
  proof (cases "find (\<lambda>n. cls n = StructuredDocumentation) (ownChildren c')")
    case None
    with 6 have "documentation c' = Undefined" by simp
    with 8 that show ?thesis by simp
  next
    case (Some d)
    with 6 find_StructuredDocumentation [OF Some] show ?thesis by simp
  qed
  from 1 2 3 5 6 7 8 9 show ?thesis by blast
qed

theorem undefined_assignment_clears_witness:
  "documentation_invariant (example_node Contract (Structured example_doc0) [example_fn1]) \<and>
   documentation (snd (documentation_set Undefined
      (example_node Contract (Structured example_doc0) [example_fn1]))) = Undefined \<and>
   ownChildren (snd (documentation_set Undefined
      (example_node Contract (Structured example_doc0) [example_fn1]))) = [example_fn1] \<and>
   \<not> documentation_invariant
      (appendChild example_doc1 (appendChild example_doc0 (example_node Contract Undefined []))) \<and>
   documentation (snd (documentation_set Undefined
      (appendChild example_doc1 (appendChild example_doc0 (example_node Contract Undefined [])))))
     = Structured example_doc1"
proof -
  have d: "documentation (example_node Contract (Structured example_doc0) [example_fn1])
              = Structured example_doc0"
    and o: "ownChildren (example_node Contract (Structured example_doc0) [example_fn1])
              = [example_doc0, example_fn1]"
    and d2: "documentation (appendChild example_doc1 (appendChild example_doc0
               (example_node Contract Undefined []))) = Structured example_doc0"
    and o2: "ownChildren (appendChild example_doc1 (appendChild example_doc0
               (example_node Contract Undefined []))) = [example_doc0, example_doc1]"
    by (simp_all add: example_defs)
  have i: "documentation_invariant (example_node Contract (Structured example_doc0) [example_fn1])"
    by (simp add: documentation_invariant_def is_StructuredDocumentation_def example_defs)
  have i2: "\<not> documentation_invariant
      (appendChild example_doc1 (appendChild example_doc0 (example_node Contract Undefined [])))"
    by (simp add: documentation_invariant_def is_StructuredDocumentation_def example_defs)
  note w = undefined_assignment_clears
         [of "example_node Contract (Structured example_doc0) [example_fn1]"]
  note w' = undefined_assignment_clears
         [of "appendChild example_doc1 (appendChild example_doc0
                (example_node Contract Undefined []))"]
  have w1: "documentation (snd (documentation_set Undefined
      (example_node Contract (Structured example_doc0) [example_fn1]))) = Undefined"
    using w i by blast
  have w2: "ownChildren (snd (documentation_set Undefined
      (example_node Contract (Structured example_doc0) [example_fn1]))) = [example_fn1]"
    using w d o by simp
  have w3: "ownChildren (snd (documentation_set Undefined
      (appendChild example_doc1 (appendChild example_doc0 (example_node Contract Undefined [])))))
      = [example_doc1]"
    using w' d2 o2 by simp
  have w4: "\<exists>d. documentation (snd (documentation_set Undefined
      (appendChild example_doc1 (appendChild example_doc0 (example_node Contract Undefined [])))))
      = Structured d \<and> d \<in> set (ownChildren (snd (documentation_set Undefined
      (appendChild example_doc1 (appendChild example_doc0 (example_node Contract Undefined []))))))"
    using w' i2 by blast
  from w3 w4 have w5: "documentation (snd (documentation_set Undefined
      (appendChild example_doc1 (appendChild example_doc0 (example_node Contract Undefined [])))))
     = Structured example_doc1"
    by simp
  from i w1 w2 i2 w5 show ?thesis by blast
qed

text \<open>
  C9 as stated fails: a structured documentation node appended while a plain text was
  stored is not removed by assigning undefined, and the getter then returns that node.
\<close>

theorem undefined_assignment_counterexample:
  "documentation (appendChild example_doc0 (example_node Contract (Text ''desc'') []))
     = Text ''desc'' \<and>
   ownChildren (appendChild example_doc0 (example_node Contract (Text ''desc'') []))
     = [example_doc0] \<and>
   documentation (snd (documentation_set Undefined
      (appendChild example_doc0 (example_node Contract (Text ''desc'') []))))
     = Structured example_doc0 \<and>
   ownChildren (snd (documentation_set Undefined
      (appendChild example_doc0 (example_node Contract (Text ''desc'') []))))
     = [example_doc0]"
  by (simp add: example_defs)

subsection \<open>Scope, linearization and derived views\<close>

lemma locate_id: "locate ctx i = Inr n \<Longrightarrow> node_id n = i \<and> n \<in> set ctx"
proof -
  assume a: "locate ctx i = Inr n"
  have "find (\<lambda>m. node_id m = i) ctx = Some n \<Longrightarrow> node_id n = i \<and> n \<in> set ctx"
    by (induction ctx) (auto split: if_splits)
  with a show ?thesis
    by (auto simp: locate_def split: option.splits)
qed

lemma locate_contains: "contains ctx val \<Longrightarrow> \<exists>n. locate ctx (node_id val) = Inr n"
proof -
  assume "contains ctx val"
  then have "\<exists>m \<in> set ctx. node_id m = node_id val"
    by (simp add: contains_def list_ex_iff)
  then have "find (\<lambda>m. node_id m = node_id val) ctx \<noteq> None"
    by (auto simp: find_None_iff)
  then show ?thesis by (auto simp: locate_def split: option.splits)
qed

lemma find_snoc:
  "find P (xs @ [y]) = (case find P xs of None \<Rightarrow> (if P y then Some y else None) | Some x \<Rightarrow> Some x)"
  by (induction xs) auto

text \<open>A node that has been registered is located under its id, and registering another
  node does not change what the earlier ids resolve to.\<close>

lemma register_locate:
  assumes "register n ctx = Inr ctx'"
  shows "locate ctx' (node_id n) = Inr n"
    and "locate ctx i = Inr m \<Longrightarrow> locate ctx' i = Inr m"
proof -
  from assms have c: "ctx' = ctx @ [n]" and nc: "\<not> contains ctx n"
    by (auto simp: register_def split: if_splits)
  from nc have "find (\<lambda>m. node_id m = node_id n) ctx = None"
    by (auto simp: contains_def list_ex_iff find_None_iff)
  with c show "locate ctx' (node_id n) = Inr n"
    by (simp add: locate_def find_snoc)
  assume "locate ctx i = Inr m"
  with c show "locate ctx' i = Inr m"
    by (auto simp: locate_def find_snoc split: option.splits)
qed

lemma register_duplicate: "contains ctx n \<Longrightarrow> register n ctx = Inl DuplicateId"
  by (simp add: register_def)

text \<open>
  C6. The \<^verbatim>\<open>vScope\<close> setter fails with CrossContextError exactly when the registry does
  not contain the target; a failed call leaves the node, and so its scope, unchanged; a
  successful call stores the target's id in scope and changes nothing else. The getter is
  the registry's \<^verbatim>\<open>locate\<close> at scope, and after a successful call it returns a node
  with the target's id.
\<close>

theorem vScope_set_spec:
  "(fst (vScope_set ctx val c) = Some CrossContextError \<longleftrightarrow> \<not> contains ctx val) \<and>
   (fst (vScope_set ctx val c) \<noteq> None \<longrightarrow>
      fst (vScope_set ctx val c) = Some CrossContextError \<and>
      snd (vScope_set ctx val c) = c \<and> scope (snd (vScope_set ctx val c)) = scope c) \<and>
   (fst (vScope_set ctx val c) = None \<longrightarrow>
      snd (vScope_set ctx val c) = c\<lparr>scope := node_id val\<rparr> \<and>
      scope (snd (vScope_set ctx val c)) = node_id val \<and>
      (\<exists>n. vScope ctx (snd (vScope_set ctx val c)) = Inr n \<and> node_id n = node_id val)) \<and>
   vScope ctx c = locate ctx (scope c)"
proof -
  have "\<exists>n. locate ctx (node_id val) = Inr n \<and> node_id n = node_id val" if "contains ctx val"
    using locate_contains [OF that] locate_id by blast
  then show ?thesis
    by (auto simp: vScope_set_def vScope_def)
qed

theorem vScope_set_spec_witness:
  "contains example_registry example_unit \<and>
   fst (vScope_set example_registry example_unit (example_node Contract Undefined [])) = None \<and>
   scope (snd (vScope_set example_registry example_unit (example_node Contract Undefined []))) = 1 \<and>
   \<not> contains example_registry example_foreign \<and>
   fst (vScope_set example_registry example_foreign (example_node Contract Undefined []))
     = Some CrossContextError \<and>
   snd (vScope_set example_registry example_foreign (example_node Contract Undefined []))
     = example_node Contract Undefined []"
proof -
  have c: "contains example_registry example_unit" "\<not> contains example_registry example_foreign"
    by (simp_all add: contains_def example_registry_def example_unit_def example_foreign_def
        example_self_def)
  have i: "node_id example_unit = 1" by (simp add: example_unit_def)
  have w1: "fst (vScope_set example_registry example_unit (example_node Contract Undefined [])) = None"
    using vScope_set_spec [of example_registry example_unit "example_node Contract Undefined []"] c
    by blast
  have w2: "scope (snd (vScope_set example_registry example_unit
              (example_node Contract Undefined []))) = node_id example_unit"
    using vScope_set_spec [of example_registry example_unit "example_node Contract Undefined []"] w1
    by blast
  have w3: "fst (vScope_set example_registry example_foreign (example_node Contract Undefined []))
     = Some CrossContextError"
    using vScope_set_spec [of example_registry example_foreign "example_node Contract Undefined []"] c
    by blast
  have w4: "snd (vScope_set example_registry example_foreign (example_node Contract Undefined []))
     = example_node Contract Undefined []"
    using vScope_set_spec [of example_registry example_foreign "example_node Contract Undefined []"] w3
    by (metis option.distinct(1))
  from c i w1 w2 w3 w4 show ?thesis by simp
qed

lemma map_result_Inr:
  "map_result f xs = Inr ys \<longleftrightarrow> list_all2 (\<lambda>x y. f x = Inr y) xs ys"
proof
  show "map_result f xs = Inr ys \<Longrightarrow> list_all2 (\<lambda>x y. f x = Inr y) xs ys"
    by (induction xs arbitrary: ys) (auto split: sum.splits)
  show "list_all2 (\<lambda>x y. f x = Inr y) xs ys \<Longrightarrow> map_result f xs = Inr ys"
    by (induction rule: list_all2_induct) auto
qed

lemma vLinearizedBaseContracts_ids:
  assumes "vLinearizedBaseContracts ctx c = Inr ns"
  shows "map node_id ns = linearizedBaseContracts c"
    and "\<And>i. i \<in> set (linearizedBaseContracts c) \<Longrightarrow> \<exists>n \<in> set ns. locate ctx i = Inr n"
proof -
  from assms have l: "list_all2 (\<lambda>i n. locate ctx i = Inr n) (linearizedBaseContracts c) ns"
    by (simp add: vLinearizedBaseContracts_def map_result_Inr)
  then have "list_all2 (\<lambda>i n. node_id n = i) (linearizedBaseContracts c) ns"
    by (rule list_all2_mono) (simp add: locate_id)
  then show "map node_id ns = linearizedBaseContracts c"
    by (induction rule: list_all2_induct) auto
  fix i
  assume "i \<in> set (linearizedBaseContracts c)"
  with l show "\<exists>n \<in> set ns. locate ctx i = Inr n"
    by (induction rule: list_all2_induct) auto
qed

lemma vLinearizedBaseContracts_total:
  "list_all (\<lambda>i. case locate ctx i of Inr n \<Rightarrow> P n | Inl e \<Rightarrow> False) (linearizedBaseContracts c)
   \<Longrightarrow> \<exists>ns. vLinearizedBaseContracts ctx c = Inr ns"
proof -
  have "list_all (\<lambda>i. case locate ctx i of Inr n \<Rightarrow> P n | Inl e \<Rightarrow> False) is
        \<Longrightarrow> \<exists>ns. map_result (\<lambda>i. locate ctx i) is = Inr ns" for "is"
    by (induction "is") (auto split: sum.splits)
  then show "list_all (\<lambda>i. case locate ctx i of Inr n \<Rightarrow> P n | Inl e \<Rightarrow> False)
      (linearizedBaseContracts c) \<Longrightarrow> \<exists>ns. vLinearizedBaseContracts ctx c = Inr ns"
    by (simp add: vLinearizedBaseContracts_def)
qed

lemma isSubclassOf_ids:
  assumes r: "locate ctx (node_id other) = Inr other"
    and v: "vLinearizedBaseContracts ctx c = Inr ns"
  shows "other \<in> set ns \<longleftrightarrow> node_id other \<in> set (linearizedBaseContracts c)"
proof
  assume "other \<in> set ns"
  then have "node_id other \<in> set (map node_id ns)" by simp
  then show "node_id other \<in> set (linearizedBaseContracts c)"
    by (simp only: vLinearizedBaseContracts_ids(1) [OF v])
next
  assume "node_id other \<in> set (linearizedBaseContracts c)"
  from vLinearizedBaseContracts_ids(2) [OF v this] r show "other \<in> set ns"
    by auto
qed

text \<open>
  C7. For a node \<open>other\<close> registered in the registry, \<^verbatim>\<open>isSubclassOf(other)\<close> returns
  true iff the id of \<open>other\<close> appears among the nodes of \<^verbatim>\<open>vLinearizedBaseContracts\<close>,
  and whenever that list resolves the result is whether the id of \<open>other\<close> is in
  \<^verbatim>\<open>linearizedBaseContracts\<close>. Under invariant 1, \<^verbatim>\<open>c.isSubclassOf(c)\<close> is true.
\<close>

theorem isSubclassOf_spec:
  "(locate ctx (node_id other) = Inr other \<longrightarrow>
      (isSubclassOf ctx c other = Inr True \<longleftrightarrow>
         (\<exists>ns. vLinearizedBaseContracts ctx c = Inr ns \<and> node_id other \<in> node_id ` set ns)) \<and>
      (\<forall>ns. vLinearizedBaseContracts ctx c = Inr ns \<longrightarrow>
         isSubclassOf ctx c other = Inr (node_id other \<in> set (linearizedBaseContracts c)))) \<and>
   (invariant1 ctx c \<longrightarrow> isSubclassOf ctx c (self c) = Inr True)"
proof (intro conjI impI allI)
  assume r: "locate ctx (node_id other) = Inr other"
  show "isSubclassOf ctx c other = Inr True \<longleftrightarrow>
         (\<exists>ns. vLinearizedBaseContracts ctx c = Inr ns \<and> node_id other \<in> node_id ` set ns)"
  proof (cases "vLinearizedBaseContracts ctx c")
    case (Inl e)
    then show ?thesis by (simp add: isSubclassOf_def)
  next
    case (Inr ns)
    have "node_id other \<in> node_id ` set ns \<longleftrightarrow> node_id other \<in> set (linearizedBaseContracts c)"
      using vLinearizedBaseContracts_ids(1) [OF Inr] by (metis set_map)
    with isSubclassOf_ids [OF r Inr] Inr show ?thesis
      by (simp add: isSubclassOf_def)
  qed
next
  fix ns
  assume r: "locate ctx (node_id other) = Inr other"
    and v: "vLinearizedBaseContracts ctx c = Inr ns"
  from isSubclassOf_ids [OF r v] v
  show "isSubclassOf ctx c other = Inr (node_id other \<in> set (linearizedBaseContracts c))"
    by (simp add: isSubclassOf_def)
next
  assume i: "invariant1 ctx c"
  then have r: "locate ctx (node_id (self c)) = Inr (self c)"
    and h: "node_id (self c) \<in> set (linearizedBaseContracts c)"
    by (auto simp: invariant1_def dest: hd_in_set)
  from i obtain ns where v: "vLinearizedBaseContracts ctx c = Inr ns"
    using vLinearizedBaseContracts_total [where ctx = ctx and c = c
            and P = "\<lambda>n. cls n = ContractDefinition"]
    by (auto simp: invariant1_def)
  from isSubclassOf_ids [OF r v] h v
  show "isSubclassOf ctx c (self c) = Inr True"
    by (simp add: isSubclassOf_def)
qed

lemma example_contract_fields:
  "self (example_node Contract Undefined []) = example_self 2"
  "linearizedBaseContracts (example_node Contract Undefined []) = [2]"
  by (simp_all add: example_node_def new_ContractDefinition_def documentation_set_def
      documentation_def instanceof_StructuredDocumentation_def ownChildren_def)

lemma example_registry_locate:
  "locate example_registry 2 = Inr (example_self 2)"
  "locate example_registry 3 = Inr (example_self 3)"
  by (simp_all add: locate_def example_registry_def example_unit_def example_self_def)

theorem isSubclassOf_spec_witness:
  "locate example_registry (node_id (example_self 3)) = Inr (example_self 3) \<and>
   isSubclassOf example_registry (example_node Contract Undefined []) (example_self 3) = Inr False \<and>
   invariant1 example_registry (example_node Contract Undefined []) \<and>
   isSubclassOf example_registry (example_node Contract Undefined [])
     (self (example_node Contract Undefined [])) = Inr True"
proof -
  have i: "node_id (example_self 3) = 3" "node_id (example_self 2) = 2"
      "cls (example_self 2) = ContractDefinition"
    by (simp_all add: example_self_def)
  have r: "locate example_registry (node_id (example_self 3)) = Inr (example_self 3)"
    by (simp add: i example_registry_locate)
  have v: "vLinearizedBaseContracts example_registry (example_node Contract Undefined [])
             = Inr [example_self 2]"
    by (simp add: vLinearizedBaseContracts_def example_contract_fields example_registry_locate)
  have inv: "invariant1 example_registry (example_node Contract Undefined [])"
    by (simp add: invariant1_def example_contract_fields example_registry_locate i)
  have w1: "isSubclassOf example_registry (example_node Contract Undefined []) (example_self 3)
             = Inr False"
    using isSubclassOf_spec [of example_registry "example_self 3" "example_node Contract Undefined []"]
      r v by (simp add: example_contract_fields i)
  have w2: "isSubclassOf example_registry (example_node Contract Undefined [])
     (self (example_node Contract Undefined [])) = Inr True"
    using isSubclassOf_spec [of example_registry "example_self 3" "example_node Contract Undefined []"]
      inv by blast
  from r w1 inv w2 show ?thesis by simp
qed

lemma filter_remove1_same: "P x \<Longrightarrow> filter P (remove1 x xs) = remove1 x (filter P xs)"
  by (induction xs) auto

lemma filter_view_live:
  assumes view: "\<And>c. view c = filter (\<lambda>node. cls node = k) (ownChildren c)"
  shows "view c = filter (\<lambda>node. cls node = k) (ownChildren c) \<and>
     subseq (view c) (ownChildren c) \<and>
     view (appendChild n c) = view c @ (if cls n = k then [n] else []) \<and>
     view (insertAtBeginning n c) = (if cls n = k then [n] else []) @ view c \<and>
     view (snd (removeChild n c)) = (if cls n = k then remove1 n (view c) else view c) \<and>
     view (snd (replaceChild new old c)) =
       (if old \<in> set (ownChildren c)
        then filter (\<lambda>node. cls node = k) (replace_first new old (ownChildren c))
        else view c)"
proof -
  have r: "view (snd (removeChild n c)) = (if cls n = k then remove1 n (view c) else view c)"
  proof (cases "n \<in> set (children c)")
    case True
    then show ?thesis
      by (simp add: view removeChild_def ownChildren_def filter_remove1_same filter_remove1_other)
  next
    case False
    then have "remove1 n (filter (\<lambda>node. cls node = k) (children c))
        = filter (\<lambda>node. cls node = k) (children c)"
      by (simp add: remove1_idem)
    with False show ?thesis
      by (simp add: view removeChild_def ownChildren_def)
  qed
  show ?thesis
    by (simp add: r) (simp add: view appendChild_def insertAtBeginning_def replaceChild_def
        ownChildren_def)
qed

text \<open>
  C8. Each of the nine derived views is the subsequence of the current \<^verbatim>\<open>ownChildren\<close>
  whose nodes have the view's class, in the order of the children. It is computed from the
  children of the state it is asked on, so the next access after \<^verbatim>\<open>appendChild\<close>,
  \<^verbatim>\<open>insertAtBeginning\<close>, \<^verbatim>\<open>removeChild\<close> or \<^verbatim>\<open>replaceChild\<close> shows the change.
\<close>

theorem views_are_live_filters:
  "\<forall>(view, k) \<in> set derived_views.
     view c = filter (\<lambda>node. cls node = k) (ownChildren c) \<and>
     subseq (view c) (ownChildren c) \<and>
     view (appendChild n c) = view c @ (if cls n = k then [n] else []) \<and>
     view (insertAtBeginning n c) = (if cls n = k then [n] else []) @ view c \<and>
     view (snd (removeChild n c)) = (if cls n = k then remove1 n (view c) else view c) \<and>
     view (snd (replaceChild new old c)) =
       (if old \<in> set (ownChildren c)
        then filter (\<lambda>node. cls node = k) (replace_first new old (ownChildren c))
        else view c)"
proof (intro ballI)
  fix x
  assume x: "x \<in> set derived_views"
  obtain view k where xv: "x = (view, k)" by (cases x)
  from x have vw: "view c = filter (\<lambda>node. cls node = k) (ownChildren c)" for c
    unfolding xv
    by (auto simp: derived_views_def vInheritanceSpecifiers_def vStateVariables_def
        vModifiers_def vEvents_def vErrors_def vFunctions_def vUsingForDirectives_def
        vStructs_def vEnums_def)
  have "view c = filter (\<lambda>node. cls node = k) (ownChildren c) \<and>
     subseq (view c) (ownChildren c) \<and>
     view (appendChild n c) = view c @ (if cls n = k then [n] else []) \<and>
     view (insertAtBeginning n c) = (if cls n = k then [n] else []) @ view c \<and>
     view (snd (removeChild n c)) = (if cls n = k then remove1 n (view c) else view c) \<and>
     view (snd (replaceChild new old c)) =
       (if old \<in> set (ownChildren c)
        then filter (\<lambda>node. cls node = k) (replace_first new old (ownChildren c))
        else view c)"
    by (rule filter_view_live [OF vw])
  then show "case x of (view, k) \<Rightarrow>
     view c = filter (\<lambda>node. cls node = k) (ownChildren c) \<and>
     subseq (view c) (ownChildren c) \<and>
     view (appendChild n c) = view c @ (if cls n = k then [n] else []) \<and>
     view (insertAtBeginning n c) = (if cls n = k then [n] else []) @ view c \<and>
     view (snd (removeChild n c)) = (if cls n = k then remove1 n (view c) else view c) \<and>
     view (snd (replaceChild new old c)) =
       (if old \<in> set (ownChildren c)
        then filter (\<lambda>node. cls node = k) (replace_first new old (ownChildren c))
        else view c)"
    unfolding xv prod.case .
qed

theorem views_are_live_filters_witness:
  "(vFunctions, FunctionDefinition) \<in> set derived_views \<and>
   vFunctions (example_node Interface Undefined [example_fn1]) = [example_fn1] \<and>
   vFunctions (appendChild example_fn2 (example_node Interface Undefined [example_fn1]))
     = [example_fn1, example_fn2] \<and>
   vFunctions (insertAtBeginning example_fn2 (example_node Interface Undefined [example_fn1]))
     = [example_fn2, example_fn1] \<and>
   vFunctions (snd (removeChild example_fn1 (example_node Interface Undefined [example_fn1]))) = [] \<and>
   vFunctions (snd (replaceChild example_fn2 example_fn1
      (example_node Interface Undefined [example_fn1]))) = [example_fn2]"
proof -
  have m: "(vFunctions, FunctionDefinition) \<in> set derived_views"
    by (simp add: derived_views_def)
  have o: "ownChildren (example_node Interface Undefined [example_fn1]) = [example_fn1]"
    by (simp add: example_node_def new_ContractDefinition_def documentation_set_def
        documentation_def instanceof_StructuredDocumentation_def ownChildren_def appendChild_def
        example_fn1_def)
  have k: "cls example_fn1 = FunctionDefinition" "cls example_fn2 = FunctionDefinition"
    by (simp_all add: example_fn1_def example_fn2_def)
  note w = bspec [OF views_are_live_filters m, unfolded prod.case,
      where c1 = "example_node Interface Undefined [example_fn1]"
        and n1 = example_fn1 and new1 = example_fn2 and old1 = example_fn1]
  note w' = bspec [OF views_are_live_filters m, unfolded prod.case,
      where c1 = "example_node Interface Undefined [example_fn1]"
        and n1 = example_fn2 and new1 = example_fn2 and old1 = example_fn1]
  from w w' m show ?thesis
    by (simp add: o k)
qed

subsection \<open>The native compiler prefix\<close>

text \<open>
  C10. \<^verbatim>\<open>getCompilerPrefixForOs\<close> returns undefined whenever the architecture is neither
  "x64" nor "ia64"; on those two architectures it returns "linux-amd64" for the OS type
  "Linux", the one string "windows-amd64" for both "Windows_NT" and "Darwin", and
  undefined for every other OS type.
\<close>

theorem getCompilerPrefixForOs_cases:
  "(arch \<noteq> ''x64'' \<and> arch \<noteq> ''ia64'' \<longrightarrow> getCompilerPrefixForOs arch type = None) \<and>
   (arch = ''x64'' \<or> arch = ''ia64'' \<longrightarrow>
      (type = ''Linux'' \<longrightarrow> getCompilerPrefixForOs arch type = Some ''linux-amd64'') \<and>
      (type = ''Windows_NT'' \<or> type = ''Darwin'' \<longrightarrow>
         getCompilerPrefixForOs arch type = Some ''windows-amd64'') \<and>
      (type \<noteq> ''Linux'' \<and> type \<noteq> ''Windows_NT'' \<and> type \<noteq> ''Darwin'' \<longrightarrow>
         getCompilerPrefixForOs arch type = None))"
  by (simp add: getCompilerPrefixForOs_def)

theorem getCompilerPrefixForOs_cases_witness:
  "getCompilerPrefixForOs ''arm64'' ''Darwin'' = None \<and>
   getCompilerPrefixForOs ''x64'' ''Linux'' = Some ''linux-amd64'' \<and>
   getCompilerPrefixForOs ''ia64'' ''Windows_NT'' = Some ''windows-amd64'' \<and>
   getCompilerPrefixForOs ''x64'' ''Darwin'' = Some ''windows-amd64'' \<and>
   getCompilerPrefixForOs ''x64'' ''FreeBSD'' = None"
  using getCompilerPrefixForOs_cases [of "''arm64''" "''Darwin''"]
        getCompilerPrefixForOs_cases [of "''x64''" "''Linux''"]
        getCompilerPrefixForOs_cases [of "''ia64''" "''Windows_NT''"]
        getCompilerPrefixForOs_cases [of "''x64''" "''Darwin''"]
        getCompilerPrefixForOs_cases [of "''x64''" "''FreeBSD''"]
  by simp

end
